theory Spec2Isabelle
  imports Main
begin

section \<open>The parameter provider of ts-command-line\<close>

text \<open>
  A shallow embedding of \<^verbatim>\<open>CommandLineParameterProvider.ts\<close>: the class that declares
  command-line parameters (\<^verbatim>\<open>defineFlagParameter\<close> and its siblings, \<^verbatim>\<open>_getKey\<close>,
  \<^verbatim>\<open>_createParameter\<close>), fills their values after parsing (\<^verbatim>\<open>_processParsedData\<close>) and
  checks the required ones (\<^verbatim>\<open>validateParameters\<close>).

  Names follow the source. An identifier cannot begin with an underscore, so \<^verbatim>\<open>_getKey\<close>
  is \<open>getKey\<close>, \<^verbatim>\<open>_createParameter\<close> is \<open>createParameter\<close>, and the private fields lose
  their underscore as well.
\<close>

subsection \<open>JavaScript values\<close>

text \<open>
  The values that reach the provider through \<^verbatim>\<open>any\<close>-typed slots: parameter values, default
  values and the entries of the parsed data. \<^verbatim>\<open>undefined\<close> is \<open>None\<close> of
  \<open>jsvalue option\<close>.
\<close>

datatype jsvalue =
    JNull
  | JBool bool
  | JNum int
  | JStr string
  | JArr "string list"

text \<open>The truthiness test that \<^verbatim>\<open>if (x)\<close>, \<^verbatim>\<open>!x\<close> and \<^verbatim>\<open>x && y\<close> apply.\<close>

fun truthy :: "jsvalue option \<Rightarrow> bool" where
  "truthy None = False"
| "truthy (Some JNull) = False"
| "truthy (Some (JBool b)) = b"
| "truthy (Some (JNum n)) = (n \<noteq> 0)"
| "truthy (Some (JStr s)) = (s \<noteq> [])"
| "truthy (Some (JArr xs)) = True"

text \<open>
  \<^verbatim>\<open>Array.prototype.indexOf\<close> on an array of strings: the first index whose element is
  strictly equal to the value searched for, or -1.
\<close>

fun indexOf :: "string list \<Rightarrow> jsvalue option \<Rightarrow> int" where
  "indexOf [] v = - 1"
| "indexOf (x # xs) v =
     (if v = Some (JStr x) then 0
      else (let i = indexOf xs v in if i = - 1 then - 1 else i + 1))"

text \<open>
  \<^verbatim>\<open>Number.prototype.toString\<close> on a counter value: the decimal digits, most significant
  first. The counter starts at 0 and is only ever incremented by one, so it is a natural
  number (the increments are exact below \<open>2^53\<close>).
\<close>

definition digit :: "nat \<Rightarrow> char" where
  "digit d = ''0123456789'' ! d"

fun toString :: "nat \<Rightarrow> string" where
  "toString n = (if n < 10 then [digit n] else toString (n div 10) @ [digit (n mod 10)])"

declare toString.simps [simp del]

subsection \<open>The \<^verbatim>\<open>Map\<close> class\<close>

text \<open>
  A JavaScript \<^verbatim>\<open>Map\<close> keeps its entries in insertion order, and \<^verbatim>\<open>set\<close> on a key that
  is present replaces the value where the entry stands. \<^verbatim>\<open>forEach\<close> visits the entries in
  that order, so the map is an association list with distinct keys; \<^verbatim>\<open>get\<close> is
  \<^const>\<open>map_of\<close>. The own properties of an object literal behave the same way.
\<close>

fun Map_set :: "'k \<Rightarrow> 'v \<Rightarrow> ('k \<times> 'v) list \<Rightarrow> ('k \<times> 'v) list" where
  "Map_set k v [] = [(k, v)]"
| "Map_set k v ((k', v') # m) =
     (if k' = k then (k, v) # m else (k', v') # Map_set k v m)"

subsection \<open>Data model\<close>

text \<open>
  \<^verbatim>\<open>IBaseCommandLineDefinition<TValue>\<close> and the interfaces that extend it, as the provider
  reads them: \<^verbatim>\<open>key\<close> is read by the string, string-list and integer operations,
  \<^verbatim>\<open>options\<close> by the option operation. An optional property that is absent is \<open>None\<close>.
\<close>

record commandLineDefinition =
  parameterLongName :: string
  parameterShortName :: "string option"
  description :: string
  required :: "bool option"
  defaultValue :: "jsvalue option"
  key :: "string option"
  options :: "string list option"

text \<open>
  Modelled from the spec: the class \<^verbatim>\<open>CommandLineParameter\<close> (file
  \<^verbatim>\<open>CommandLineParameter.ts\<close>) is not among the sources. The spec describes a handle that
  holds a unique internal key and a value that is unset until resolution; the provider reads
  \<^verbatim>\<open>_key\<close> and \<^verbatim>\<open>value\<close> and calls \<^verbatim>\<open>_setValue\<close>.
\<close>

record parameter =
  p_key :: string
  p_value :: "jsvalue option"

text \<open>\<^verbatim>\<open>ICommandLineParserData\<close>: what \<^verbatim>\<open>data[k]\<close> yields for each property name.\<close>

type_synonym parserData = "string \<Rightarrow> jsvalue option"

text \<open>
  Modelled from the spec: \<^verbatim>\<open>CommandLineParameter._setValue\<close> is not among the sources.
  The spec: "set its value from the raw mapping entry for its key (applying the kind-specific
  converter if one was supplied)". No operation of the provider supplies a converter.
\<close>

definition setValue :: "parserData \<Rightarrow> parameter \<Rightarrow> parameter" where
  "setValue data p = p\<lparr>p_value := data (p_key p)\<rparr>"

text \<open>
  \<^verbatim>\<open>IParameterMetadata\<close>. A parameter is an object shared by the metadata map and the
  \<^verbatim>\<open>_parameters\<close> array, so both hold its address in the heap.
\<close>

record metadata =
  m_parameter :: nat
  m_required :: bool
  m_defaultValue :: "jsvalue option"

text \<open>
  The state of the process: the static field \<^verbatim>\<open>_keyCounter\<close>, one for all provider
  instances, and the parameter objects allocated so far, by address.
\<close>

record process =
  keyCounter :: nat
  heap :: "parameter list"

text \<open>
  The fields of one provider instance. The argument parser is the external tokenizer
  (argparse); its state \<open>'tok\<close> is left abstract.
\<close>

record 'tok provider =
  argumentParser :: 'tok
  parameterMetadata :: "(string \<times> metadata) list"
  parameters :: "nat list"
  keys :: "(string \<times> string) list"

text \<open>The object of options handed to \<^verbatim>\<open>addArgument\<close>: property names and values.\<close>

type_synonym argumentOptions = "(string \<times> jsvalue option) list"

text \<open>
  \<^verbatim>\<open>ArgumentParser.addArgument\<close> belongs to the tokenizer. It is a parameter of the model:
  given the names and the options it returns the tokenizer's new state, or \<open>None\<close> when it
  throws.
\<close>

type_synonym 'tok addArgument = "string list \<Rightarrow> argumentOptions \<Rightarrow> 'tok \<Rightarrow> 'tok option"

text \<open>
  What the provider throws. The source throws \<^verbatim>\<open>Error\<close> objects and, for a key collision,
  a coloured string; the constructors carry what the messages interpolate. The names are
  the spec's.
\<close>

datatype invalidDefinition =
    OptionsNotDefined
  | DefaultValueNotFound "jsvalue option" "string list"

datatype error =
    InvalidDefinitionError invalidDefinition
  | DuplicateKeyError string string
  | MissingRequiredParametersError "string list"
  | TokenizerError

fun isInvalidDefinitionError :: "error + 'a \<Rightarrow> bool" where
  "isInvalidDefinitionError (Inl (InvalidDefinitionError r)) = True"
| "isInvalidDefinitionError x = False"

fun isDuplicateKeyError :: "error + 'a \<Rightarrow> bool" where
  "isDuplicateKeyError (Inl (DuplicateKeyError n m)) = True"
| "isDuplicateKeyError x = False"

text \<open>The constructor. The subclass supplies the argument parser.\<close>

definition newProvider :: "'tok \<Rightarrow> 'tok provider" where
  "newProvider tok =
     \<lparr>argumentParser = tok, parameterMetadata = [], parameters = [], keys = []\<rparr>"

subsection \<open>Declaration\<close>

text \<open>
  An operation takes the state of the process and of the provider and returns its outcome
  together with the state it leaves: a throw keeps the effects that came before it.
\<close>

type_synonym 'tok state = "process \<times> 'tok provider"

text \<open>
  The default value of the parameter \<^verbatim>\<open>key\<close> of \<^verbatim>\<open>_getKey\<close>, evaluated when the argument
  is \<^verbatim>\<open>undefined\<close>: \<^verbatim>\<open>'key_' + (_keyCounter++).toString()\<close>.
\<close>

definition defaultKey :: "string option \<Rightarrow> process \<Rightarrow> string \<times> process" where
  "defaultKey keyArg pr =
     (case keyArg of
        None \<Rightarrow> (''key_'' @ toString (keyCounter pr), pr\<lparr>keyCounter := keyCounter pr + 1\<rparr>)
      | Some k \<Rightarrow> (k, pr))"

definition getKey ::
  "string \<Rightarrow> string option \<Rightarrow> 'tok state \<Rightarrow> (error + string) \<times> 'tok state" where
  "getKey parameterLongName' keyArg s =
     (case s of (pr, P) \<Rightarrow>
        (case defaultKey keyArg pr of (k, pr1) \<Rightarrow>
           (case map_of (keys P) k of
              None \<Rightarrow> (Inr k, pr1, P\<lparr>keys := Map_set k parameterLongName' (keys P)\<rparr>)
            | Some existingKey \<Rightarrow>
                if existingKey \<noteq> []
                then (Inl (DuplicateKeyError parameterLongName' existingKey), pr1, P)
                else (Inr k, pr1, P\<lparr>keys := Map_set k parameterLongName' (keys P)\<rparr>))))"

text \<open>
  The local variables \<^verbatim>\<open>names\<close> and \<^verbatim>\<open>baseArgparseOptions\<close> of \<^verbatim>\<open>_createParameter\<close>: the
  short name, when it is truthy, and the long name; and the help text and the destination
  key, over which every property of \<^verbatim>\<open>argparseOptions\<close> is copied.
\<close>

definition names :: "commandLineDefinition \<Rightarrow> string list" where
  "names d =
     (case parameterShortName d of
        None \<Rightarrow> []
      | Some n \<Rightarrow> if n \<noteq> [] then [n] else []) @ [parameterLongName d]"

definition baseArgparseOptions ::
  "commandLineDefinition \<Rightarrow> argumentOptions option \<Rightarrow> string \<Rightarrow> argumentOptions" where
  "baseArgparseOptions d argparseOptions k =
     fold (\<lambda>(keyVal, v). Map_set keyVal v)
       (case argparseOptions of None \<Rightarrow> [] | Some opts \<Rightarrow> opts)
       [(''help'', Some (JStr (description d))), (''dest'', Some (JStr k))]"

definition createParameter ::
  "'tok addArgument \<Rightarrow> commandLineDefinition \<Rightarrow> argumentOptions option \<Rightarrow> string option \<Rightarrow>
     'tok state \<Rightarrow> (error + nat) \<times> 'tok state" where
  "createParameter addArgument d argparseOptions keyArg s =
     (case getKey (parameterLongName d) keyArg s of
        (Inl e, s1) \<Rightarrow> (Inl e, s1)
      | (Inr k, pr1, P1) \<Rightarrow>
          (let result = length (heap pr1);
               pr2 = pr1\<lparr>heap := heap pr1 @ [\<lparr>p_key = k, p_value = None\<rparr>]\<rparr>;
               P2 = P1\<lparr>parameters := parameters P1 @ [result]\<rparr>
           in case addArgument (names d) (baseArgparseOptions d argparseOptions k)
                     (argumentParser P2) of
                None \<Rightarrow> (Inl TokenizerError, pr2, P2)
              | Some tok \<Rightarrow>
                  (Inr result, pr2,
                   P2\<lparr>argumentParser := tok,
                      parameterMetadata :=
                        Map_set (parameterLongName d)
                          \<lparr>m_parameter = result,
                           m_required = (required d = Some True),
                           m_defaultValue = defaultValue d\<rparr>
                          (parameterMetadata P2)\<rparr>)))"

definition defineFlagParameter ::
  "'tok addArgument \<Rightarrow> commandLineDefinition \<Rightarrow> 'tok state \<Rightarrow> (error + nat) \<times> 'tok state" where
  "defineFlagParameter addArgument d =
     createParameter addArgument d (Some [(''action'', Some (JStr ''storeTrue''))]) None"

definition defineStringParameter ::
  "'tok addArgument \<Rightarrow> commandLineDefinition \<Rightarrow> 'tok state \<Rightarrow> (error + nat) \<times> 'tok state" where
  "defineStringParameter addArgument d = createParameter addArgument d None (key d)"

definition defineStringListParameter ::
  "'tok addArgument \<Rightarrow> commandLineDefinition \<Rightarrow> 'tok state \<Rightarrow> (error + nat) \<times> 'tok state" where
  "defineStringListParameter addArgument d =
     createParameter addArgument d (Some [(''action'', Some (JStr ''append''))]) (key d)"

definition defineIntegerParameter ::
  "'tok addArgument \<Rightarrow> commandLineDefinition \<Rightarrow> 'tok state \<Rightarrow> (error + nat) \<times> 'tok state" where
  "defineIntegerParameter addArgument d =
     createParameter addArgument d (Some [(''type'', Some (JStr ''int''))]) (key d)"

definition defineOptionParameter ::
  "'tok addArgument \<Rightarrow> commandLineDefinition \<Rightarrow> 'tok state \<Rightarrow> (error + nat) \<times> 'tok state" where
  "defineOptionParameter addArgument d s =
     (case options d of
        None \<Rightarrow> (Inl (InvalidDefinitionError OptionsNotDefined), s)
      | Some opts \<Rightarrow>
          if truthy (defaultValue d) \<and> indexOf opts (defaultValue d) = - 1
          then (Inl (InvalidDefinitionError (DefaultValueNotFound (defaultValue d) opts)), s)
          else createParameter addArgument d
                 (Some [(''choices'', Some (JArr opts)), (''defaultValue'', defaultValue d)])
                 None s)"

subsection \<open>Resolution\<close>

text \<open>The first loop of \<^verbatim>\<open>_processParsedData\<close>: every parameter takes its value from the data.\<close>

definition valueFill :: "parserData \<Rightarrow> 'tok state \<Rightarrow> process" where
  "valueFill data s =
     (case s of (pr, P) \<Rightarrow>
        fold (\<lambda>a pr'. pr'\<lparr>heap := (heap pr')[a := setValue data (heap pr' ! a)]\<rparr>)
          (parameters P) pr)"

text \<open>
  The data the second loop builds for a default:
  \<^verbatim>\<open>{ action: '', [parameter._key]: defaultValue }\<close>. The computed property comes last, so it
  wins when the key is \<^verbatim>\<open>action\<close>.
\<close>

definition defaultData :: "string \<Rightarrow> jsvalue option \<Rightarrow> parserData" where
  "defaultData k v =
     (\<lambda>name. if name = k then v else if name = ''action'' then Some (JStr []) else None)"

definition defaultStep :: "string \<times> metadata \<Rightarrow> process \<Rightarrow> process" where
  "defaultStep entry pr =
     (case entry of (parameterLongName', parameterMetadata') \<Rightarrow>
        (let a = m_parameter parameterMetadata'
         in if p_value (heap pr ! a) = None \<and> m_defaultValue parameterMetadata' \<noteq> None
            then pr\<lparr>heap := (heap pr)[a :=
                   setValue (defaultData (p_key (heap pr ! a)) (m_defaultValue parameterMetadata'))
                     (heap pr ! a)]\<rparr>
            else pr))"

text \<open>The second loop of \<^verbatim>\<open>_processParsedData\<close>: the defaults.\<close>

definition defaultFill :: "'tok state \<Rightarrow> process" where
  "defaultFill s = (case s of (pr, P) \<Rightarrow> fold defaultStep (parameterMetadata P) pr)"

definition processParsedData :: "parserData \<Rightarrow> 'tok state \<Rightarrow> process" where
  "processParsedData data s = (case s of (pr, P) \<Rightarrow> defaultFill (valueFill data s, P))"

definition validateParameters :: "'tok state \<Rightarrow> error + unit" where
  "validateParameters s =
     (case s of (pr, P) \<Rightarrow>
        (let missingParameterLongNames =
               fold (\<lambda>(parameterLongName', parameterMetadata') missing.
                       if p_value (heap pr ! m_parameter parameterMetadata') = None
                          \<and> m_required parameterMetadata'
                       then missing @ [parameterLongName'] else missing)
                 (parameterMetadata P) []
         in if length missingParameterLongNames > 0
            then Inl (MissingRequiredParametersError missingParameterLongNames)
            else Inr ()))"

subsection \<open>Sequences of declarations\<close>

text \<open>
  The subclass declares its parameters by calling the five operations, one after another,
  from \<^verbatim>\<open>onDefineParameters\<close>. A declaration names the operation called and its argument.
\<close>

datatype defineCall =
    DefineFlag commandLineDefinition
  | DefineString commandLineDefinition
  | DefineStringList commandLineDefinition
  | DefineInteger commandLineDefinition
  | DefineOption commandLineDefinition

fun defineParameter ::
  "'tok addArgument \<Rightarrow> defineCall \<Rightarrow> 'tok state \<Rightarrow> (error + nat) \<times> 'tok state" where
  "defineParameter addArgument (DefineFlag d) = defineFlagParameter addArgument d"
| "defineParameter addArgument (DefineString d) = defineStringParameter addArgument d"
| "defineParameter addArgument (DefineStringList d) = defineStringListParameter addArgument d"
| "defineParameter addArgument (DefineInteger d) = defineIntegerParameter addArgument d"
| "defineParameter addArgument (DefineOption d) = defineOptionParameter addArgument d"

text \<open>The definition a declaration carries.\<close>

fun definitionOf :: "defineCall \<Rightarrow> commandLineDefinition" where
  "definitionOf (DefineFlag d) = d"
| "definitionOf (DefineString d) = d"
| "definitionOf (DefineStringList d) = d"
| "definitionOf (DefineInteger d) = d"
| "definitionOf (DefineOption d) = d"

text \<open>
  The explicit key a declaration supplies: the third argument its operation hands to
  \<^verbatim>\<open>_createParameter\<close>. The flag and the option operations hand over none.
\<close>

fun explicitKey :: "defineCall \<Rightarrow> string option" where
  "explicitKey (DefineFlag d) = None"
| "explicitKey (DefineString d) = key d"
| "explicitKey (DefineStringList d) = key d"
| "explicitKey (DefineInteger d) = key d"
| "explicitKey (DefineOption d) = None"

text \<open>
  Declarations made in sequence on one provider. Each outcome is kept, and the sequence goes
  on after a throw (the caller may catch it); a sequence that stops at the first throw is
  one whose last declaration is the only one to throw.
\<close>

fun declareAll ::
  "'tok addArgument \<Rightarrow> defineCall list \<Rightarrow> 'tok state \<Rightarrow> (error + nat) list \<times> 'tok state" where
  "declareAll addArgument [] s = ([], s)"
| "declareAll addArgument (d # ds) s =
     (case defineParameter addArgument d s of (r, s1) \<Rightarrow>
        (case declareAll addArgument ds s1 of (rs, s2) \<Rightarrow> (r # rs, s2)))"

text \<open>
  Declarations made in sequence on several provider instances of one process: every
  declaration names the instance it is made on. The instances share the process.
\<close>

fun declareEach ::
  "'tok addArgument \<Rightarrow> (nat \<times> defineCall) list \<Rightarrow> process \<times> (nat \<Rightarrow> 'tok provider) \<Rightarrow>
     (error + nat) list \<times> process \<times> (nat \<Rightarrow> 'tok provider)" where
  "declareEach addArgument [] w = ([], w)"
| "declareEach addArgument ((i, d) # ops) w =
     (case w of (pr, Ps) \<Rightarrow>
        (case defineParameter addArgument d (pr, Ps i) of (r, pr1, P1) \<Rightarrow>
           (case declareEach addArgument ops (pr1, Ps(i := P1)) of (rs, w2) \<Rightarrow> (r # rs, w2))))"

text \<open>
  The keys of the parameters that the declarations without an explicit key returned, read
  from the heap in the order of the declarations.
\<close>

fun generatedKeys ::
  "(nat \<times> defineCall) list \<Rightarrow> (error + nat) list \<Rightarrow> parameter list \<Rightarrow> string list" where
  "generatedKeys ((i, d) # ops) (Inr a # rs) h =
     (if explicitKey d = None then p_key (h ! a) # generatedKeys ops rs h
      else generatedKeys ops rs h)"
| "generatedKeys (x # ops) (r # rs) h = generatedKeys ops rs h"
| "generatedKeys ops rs h = []"

text \<open>The keys that the parameters of a provider hold.\<close>

definition parameterKeys :: "'tok state \<Rightarrow> string list" where
  "parameterKeys s = (case s of (pr, P) \<Rightarrow> map (\<lambda>a. p_key (heap pr ! a)) (parameters P))"


definition refusesTakenName :: "('tok \<Rightarrow> string set) \<Rightarrow> 'tok addArgument \<Rightarrow> bool" where
  "refusesTakenName taken A =
     (\<forall>ns aopts t t'. A ns aopts t = Some t' \<longrightarrow>
        set ns \<inter> taken t = {} \<and> taken t \<union> set ns \<subseteq> taken t')"

text \<open>
  A tokenizer with these two refusals and no other, for the examples: its state is the list
  of the option strings taken.
\<close>

definition argparseArgument :: "string list addArgument" where
  "argparseArgument ns aopts tok =
     (if [] \<in> set ns \<or> (\<exists>n \<in> set ns. n \<in> set tok) then None else Some (tok @ ns))"

text \<open>
  A tokenizer that refuses nothing and records every switch with its options. argparse is
  stricter; the examples that turn on what the tokenizer refuses use the one above.
\<close>

definition recordArgument :: "(string list \<times> argumentOptions) list addArgument" where
  "recordArgument ns aopts tok = Some (tok @ [(ns, aopts)])"

text \<open>The process as it starts.\<close>

definition newProcess :: process where
  "newProcess = \<lparr>keyCounter = 0, heap = []\<rparr>"

subsection \<open>What validation reports, in the spec's words\<close>

text \<open>
  The spec: "scan the metadata map for any entry where \<^verbatim>\<open>required\<close> is true and the
  parameter's value remains unset; collect all such \<^verbatim>\<open>longName\<close>s". This is that list, in the
  order of the map; \<open>validateParameters\<close> above is compared with it.
\<close>

definition missingRequired :: "'tok state \<Rightarrow> string list" where
  "missingRequired s =
     (case s of (pr, P) \<Rightarrow>
        map fst (filter (\<lambda>(n, m). p_value (heap pr ! m_parameter m) = None \<and> m_required m)
                   (parameterMetadata P)))"

subsection \<open>Example definitions\<close>

text \<open>A definition with a long name and an optional key, and nothing else.\<close>

definition plainDefinition :: "string \<Rightarrow> string option \<Rightarrow> commandLineDefinition" where
  "plainDefinition n k =
     \<lparr>parameterLongName = n, parameterShortName = None, description = [],
      required = None, defaultValue = None, key = k, options = None\<rparr>"

text \<open>The state that a new provider of a new process reaches by a sequence of declarations.\<close>

definition declared :: "defineCall list \<Rightarrow> (string list \<times> argumentOptions) list state" where
  "declared calls = snd (declareAll recordArgument calls (newProcess, newProvider []))"

text \<open>The state after \<^verbatim>\<open>_processParsedData\<close>.\<close>

definition resolved :: "parserData \<Rightarrow> 'tok state \<Rightarrow> 'tok state" where
  "resolved data s = (processParsedData data s, snd s)"

text \<open>The declarations of the spec's scenario A: a flag and a required string.\<close>

definition scenarioA :: "defineCall list" where
  "scenarioA =
     [DefineFlag ((plainDefinition ''--verbose'' None)\<lparr>parameterShortName := Some ''-v''\<rparr>),
      DefineString ((plainDefinition ''--name'' None)\<lparr>required := Some True\<rparr>)]"

text \<open>The enumerated option of the spec's scenario C.\<close>

definition levelOption :: commandLineDefinition where
  "levelOption =
     \<lparr>parameterLongName = ''--level'', parameterShortName = None, description = ''level'',
      required = None, defaultValue = Some (JStr ''low''), key = None,
      options = Some [''low'', ''high'']\<rparr>"

text \<open>A required string \<open>--name\<close> with the default \<open>anon\<close>.\<close>

definition requiredName :: "string option \<Rightarrow> commandLineDefinition" where
  "requiredName k =
     (plainDefinition ''--name'' k)\<lparr>required := Some True, defaultValue := Some (JStr ''anon'')\<rparr>"

text \<open>The key generated at a counter value.\<close>

abbreviation keyName :: "nat \<Rightarrow> string" where
  "keyName n \<equiv> ''key_'' @ toString n"

section \<open>Properties\<close>

text \<open>The equations that evaluate the operations on a concrete input.\<close>

lemmas eval_defs =
  defineFlagParameter_def defineStringParameter_def defineStringListParameter_def
  defineIntegerParameter_def defineOptionParameter_def createParameter_def getKey_def
  names_def baseArgparseOptions_def
  defaultKey_def newProcess_def newProvider_def recordArgument_def Let_def parameterKeys_def
  plainDefinition_def toString.simps digit_def declared_def resolved_def argparseArgument_def
  processParsedData_def valueFill_def defaultFill_def defaultStep_def defaultData_def
  setValue_def

subsection \<open>Validation of an option definition\<close>







subsection \<open>The key registry\<close>

lemma map_of_Map_set: "map_of (Map_set k v m) = (map_of m)(k \<mapsto> v)"
  by (induction m) (auto simp: fun_eq_iff)

lemma map_fst_Map_set:
  "map fst (Map_set k v m) = (if k \<in> fst ` set m then map fst m else map fst m @ [k])"
  by (induction m) (auto simp: rev_image_eqI)

lemma getKey_registered:
  "map_of (keys P) k = Some owner \<Longrightarrow> owner \<noteq> [] \<Longrightarrow>
     getKey n (Some k) (pr, P) = (Inl (DuplicateKeyError n owner), pr, P)"
  by (simp add: getKey_def defaultKey_def)

lemma getKey_unregistered:
  "map_of (keys P) k = None \<Longrightarrow>
     getKey n (Some k) (pr, P) = (Inr k, pr, P\<lparr>keys := Map_set k n (keys P)\<rparr>)"
  by (simp add: getKey_def defaultKey_def)

text \<open>
  A key that was assigned to a parameter with a non-empty long name is refused from then
  on, whatever the long name that asks for it, and the error names both.
\<close>

lemma getKey_twice:
  assumes "getKey n1 (Some k) (pr, P) = (Inr k', pr1, P1)" and "n1 \<noteq> []"
  shows "getKey n2 (Some k) (pr1, P1) = (Inl (DuplicateKeyError n2 n1), pr1, P1)"
proof -
  from assms(1) have "map_of (keys P1) k = Some n1"
    by (auto simp: getKey_def defaultKey_def map_of_Map_set split: option.splits if_splits)
  with assms(2) show ?thesis by (simp add: getKey_registered)
qed


subsection \<open>A declaration that fails\<close>

lemma createParameter_failed:
  assumes "createParameter A d opts k (pr, P) = (r, pr', P')"
    and "isInvalidDefinitionError r \<or> isDuplicateKeyError r"
  shows "P' = P \<and> heap pr' = heap pr"
  using assms
  by (auto simp: createParameter_def getKey_def defaultKey_def Let_def
      split: option.splits if_splits)

text \<open>
  Claim C7. When one of the five declaring operations fails with \<open>InvalidDefinitionError\<close> or
  \<open>DuplicateKeyError\<close>, the provider is what it was before the call: the tokenizer has not
  been given the switch, and the parameters list, the metadata map and the key registry are
  unchanged. No parameter object has been allocated either.
\<close>

theorem failed_declaration_changes_nothing:
  assumes "defineParameter A c (pr, P) = (r, pr', P')"
    and "isInvalidDefinitionError r \<or> isDuplicateKeyError r"
  shows "P' = P \<and> heap pr' = heap pr"
proof (cases c)
  case (DefineFlag d)
  with assms show ?thesis by (auto simp: defineFlagParameter_def dest: createParameter_failed)
next
  case (DefineString d)
  with assms show ?thesis by (auto simp: defineStringParameter_def dest: createParameter_failed)
next
  case (DefineStringList d)
  with assms show ?thesis
    by (auto simp: defineStringListParameter_def dest: createParameter_failed)
next
  case (DefineInteger d)
  with assms show ?thesis by (auto simp: defineIntegerParameter_def dest: createParameter_failed)
next
  case (DefineOption d)
  with assms show ?thesis
    by (auto simp: defineOptionParameter_def split: option.splits if_splits
        dest: createParameter_failed)
qed

text \<open>
  The theorem where the key \<open>k\<close> belongs to \<open>--a\<close> and \<open>--b\<close> asks for it: the call fails
  with the error that names both, and leaves the provider and the heap as they were.
\<close>

theorem failed_declaration_changes_nothing_witness:
  "fst (defineParameter recordArgument (DefineString (plainDefinition ''--b'' (Some ''k'')))
          (declared [DefineString (plainDefinition ''--a'' (Some ''k''))]))
     = Inl (DuplicateKeyError ''--b'' ''--a'')
   \<and> snd (snd (defineParameter recordArgument (DefineString (plainDefinition ''--b'' (Some ''k'')))
          (declared [DefineString (plainDefinition ''--a'' (Some ''k''))])))
     = snd (declared [DefineString (plainDefinition ''--a'' (Some ''k''))])
   \<and> heap (fst (snd (defineParameter recordArgument
          (DefineString (plainDefinition ''--b'' (Some ''k'')))
          (declared [DefineString (plainDefinition ''--a'' (Some ''k''))]))))
     = heap (fst (declared [DefineString (plainDefinition ''--a'' (Some ''k''))]))"
proof -
  let ?s = "declared [DefineString (plainDefinition ''--a'' (Some ''k''))]"
  let ?c = "DefineString (plainDefinition ''--b'' (Some ''k''))"
  let ?x = "defineParameter recordArgument ?c ?s"
  have r: "fst ?x = Inl (DuplicateKeyError ''--b'' ''--a'')"
    by (simp add: eval_defs)
  have "defineParameter recordArgument ?c (fst ?s, snd ?s) = (fst ?x, fst (snd ?x), snd (snd ?x))"
    by simp
  from failed_declaration_changes_nothing [OF this] r show ?thesis by simp
qed

subsection \<open>Validation of the required parameters\<close>

lemma fold_missing:
  "fold (\<lambda>(n, m) missing. if c m then missing @ [n] else missing) xs acc
     = acc @ map fst (filter (\<lambda>(n, m). c m) xs)"
  by (induction xs arbitrary: acc) (auto split: prod.splits)

lemma validateParameters_eq:
  "validateParameters s =
     (if missingRequired s = [] then Inr ()
      else Inl (MissingRequiredParametersError (missingRequired s)))"
  by (cases s) (simp add: validateParameters_def missingRequired_def fold_missing Let_def)

text \<open>
  Claim C3. \<open>validateParameters\<close> fails if and only if some entry of the metadata map is
  required and its parameter's value is unset; the one error it raises lists the long names
  of all those entries, in the order of the map; otherwise it returns without error.
\<close>

theorem validateParameters_missing:
  "validateParameters s =
     (if missingRequired s = [] then Inr ()
      else Inl (MissingRequiredParametersError (missingRequired s)))
   \<and> set (missingRequired s) =
       {n. \<exists>m. (n, m) \<in> set (parameterMetadata (snd s)) \<and> m_required m
              \<and> p_value (heap (fst s) ! m_parameter m) = None}"
proof -
  have "set (missingRequired s) =
       {n. \<exists>m. (n, m) \<in> set (parameterMetadata (snd s)) \<and> m_required m
              \<and> p_value (heap (fst s) ! m_parameter m) = None}"
    by (cases s) (auto simp: missingRequired_def image_iff)
  with validateParameters_eq [of s] show ?thesis by simp
qed

text \<open>
  Scenario A of the spec. With \<open>-v\<close> alone the required \<open>--name\<close> is reported; with a name
  validation passes. And with two required parameters unset, the one error names both.
\<close>

theorem validateParameters_missing_witness:
  "validateParameters
     (resolved (\<lambda>k. if k = ''key_0'' then Some (JBool True) else None) (declared scenarioA))
     = Inl (MissingRequiredParametersError [''--name''])
   \<and> validateParameters
       (resolved (\<lambda>k. if k = ''key_0'' then Some (JBool False)
                      else if k = ''key_1'' then Some (JStr ''Alice'') else None)
          (declared scenarioA))
     = Inr ()
   \<and> validateParameters
       (resolved (\<lambda>k. None)
          (declared [DefineString ((plainDefinition ''--first'' None)\<lparr>required := Some True\<rparr>),
                     DefineFlag (plainDefinition ''--verbose'' None),
                     DefineInteger ((plainDefinition ''--second'' None)\<lparr>required := Some True\<rparr>)]))
     = Inl (MissingRequiredParametersError [''--first'', ''--second''])"
  using validateParameters_missing
          [of "resolved (\<lambda>k. if k = ''key_0'' then Some (JBool True) else None)
                 (declared scenarioA)"]
        validateParameters_missing
          [of "resolved (\<lambda>k. if k = ''key_0'' then Some (JBool False)
                      else if k = ''key_1'' then Some (JStr ''Alice'') else None)
                 (declared scenarioA)"]
        validateParameters_missing
          [of "resolved (\<lambda>k. None)
          (declared [DefineString ((plainDefinition ''--first'' None)\<lparr>required := Some True\<rparr>),
                     DefineFlag (plainDefinition ''--verbose'' None),
                     DefineInteger ((plainDefinition ''--second'' None)\<lparr>required := Some True\<rparr>)])"]
  by (simp add: missingRequired_def scenarioA_def eval_defs)

subsection \<open>The default fill\<close>

lemma setValue_defaultData [simp]:
  "setValue (defaultData (p_key p) v) p = p\<lparr>p_value := v\<rparr>"
  by (simp add: setValue_def defaultData_def)

lemma defaultStep_length [simp]: "length (heap (defaultStep e pr)) = length (heap pr)"
  by (cases e) (simp add: defaultStep_def Let_def)

lemma defaultStep_keyCounter [simp]: "keyCounter (defaultStep e pr) = keyCounter pr"
  by (cases e) (simp add: defaultStep_def Let_def)

lemma defaultStep_set_unchanged:
  "p_value (heap pr ! a) \<noteq> None \<Longrightarrow> heap (defaultStep e pr) ! a = heap pr ! a"
  by (cases e; cases "m_parameter (snd e) = a") (auto simp: defaultStep_def Let_def)

lemma fold_defaultStep_length [simp]:
  "length (heap (fold defaultStep es pr)) = length (heap pr)"
  by (induction es arbitrary: pr) auto

lemma fold_defaultStep_keyCounter [simp]:
  "keyCounter (fold defaultStep es pr) = keyCounter pr"
  by (induction es arbitrary: pr) auto

lemma fold_defaultStep_set_unchanged:
  "p_value (heap pr ! a) \<noteq> None \<Longrightarrow> heap (fold defaultStep es pr) ! a = heap pr ! a"
proof (induction es arbitrary: pr)
  case Nil
  then show ?case by simp
next
  case (Cons e es)
  from Cons.prems have same: "heap (defaultStep e pr) ! a = heap pr ! a"
    by (rule defaultStep_set_unchanged)
  with Cons.prems have "p_value (heap (defaultStep e pr) ! a) \<noteq> None" by simp
  from Cons.IH [OF this] same show ?case by simp
qed

lemma defaultStep_changed:
  assumes "heap (defaultStep (n, m) pr) ! a \<noteq> heap pr ! a"
  shows "m_parameter m = a \<and> a < length (heap pr) \<and> p_value (heap pr ! a) = None
         \<and> m_defaultValue m \<noteq> None
         \<and> heap (defaultStep (n, m) pr) ! a = (heap pr ! a)\<lparr>p_value := m_defaultValue m\<rparr>"
proof -
  from assms have g: "p_value (heap pr ! m_parameter m) = None" "m_defaultValue m \<noteq> None"
    by (auto simp: defaultStep_def Let_def split: if_splits)
  from assms g have eq: "m_parameter m = a"
    by (cases "m_parameter m = a") (auto simp: defaultStep_def Let_def)
  from assms g eq have len: "a < length (heap pr)"
    by (cases "a < length (heap pr)") (auto simp: defaultStep_def Let_def list_update_beyond)
  from g eq len show ?thesis by (auto simp: defaultStep_def Let_def)
qed

lemma fold_defaultStep_changed:
  assumes "heap (fold defaultStep es pr) ! a \<noteq> heap pr ! a"
  shows "a < length (heap pr) \<and> p_value (heap pr ! a) = None
         \<and> (\<exists>n m. (n, m) \<in> set es \<and> m_parameter m = a \<and> m_defaultValue m \<noteq> None
              \<and> heap (fold defaultStep es pr) ! a = (heap pr ! a)\<lparr>p_value := m_defaultValue m\<rparr>)"
  using assms
proof (induction es arbitrary: pr)
  case Nil
  then show ?case by simp
next
  case (Cons e es)
  obtain n m where e: "e = (n, m)" by (cases e)
  show ?case
  proof (cases "heap (defaultStep e pr) ! a = heap pr ! a")
    case True
    with Cons.prems have "heap (fold defaultStep es (defaultStep e pr)) ! a \<noteq> heap (defaultStep e pr) ! a"
      by simp
    from Cons.IH [OF this] True show ?thesis by auto
  next
    case False
    from defaultStep_changed [OF False [unfolded e]]
    have st: "m_parameter m = a" "a < length (heap pr)" "p_value (heap pr ! a) = None"
      "m_defaultValue m \<noteq> None"
      "heap (defaultStep e pr) ! a = (heap pr ! a)\<lparr>p_value := m_defaultValue m\<rparr>"
      by (simp_all add: e)
    then have "p_value (heap (defaultStep e pr) ! a) \<noteq> None" by simp
    then have "heap (fold defaultStep es (defaultStep e pr)) ! a = heap (defaultStep e pr) ! a"
      by (rule fold_defaultStep_set_unchanged)
    with st e show ?thesis by auto
  qed
qed

text \<open>
  An entry is settled when the second loop has nothing to do for it: it has no default, or
  its parameter has a value. The loop settles every entry, and a settled entry stays so.
\<close>

lemma defaultStep_settled:
  "m_defaultValue (snd e) = None \<or> length (heap pr) \<le> m_parameter (snd e)
     \<or> p_value (heap pr ! m_parameter (snd e)) \<noteq> None \<Longrightarrow> defaultStep e pr = pr"
  by (cases e) (auto simp: defaultStep_def Let_def list_update_beyond)

lemma defaultStep_settles:
  "m_defaultValue (snd e) = None \<or> length (heap (defaultStep e pr)) \<le> m_parameter (snd e)
     \<or> p_value (heap (defaultStep e pr) ! m_parameter (snd e)) \<noteq> None"
  by (cases e; cases "m_parameter (snd e) < length (heap pr)") (auto simp: defaultStep_def Let_def)

lemma fold_defaultStep_keeps_settled:
  assumes "m_defaultValue (snd e) = None \<or> length (heap pr) \<le> m_parameter (snd e)
     \<or> p_value (heap pr ! m_parameter (snd e)) \<noteq> None"
  shows "m_defaultValue (snd e) = None \<or> length (heap (fold defaultStep es pr)) \<le> m_parameter (snd e)
     \<or> p_value (heap (fold defaultStep es pr) ! m_parameter (snd e)) \<noteq> None"
  using assms by (auto simp: fold_defaultStep_set_unchanged)

lemma fold_defaultStep_settles:
  "e \<in> set es \<Longrightarrow>
     m_defaultValue (snd e) = None \<or> length (heap (fold defaultStep es pr)) \<le> m_parameter (snd e)
     \<or> p_value (heap (fold defaultStep es pr) ! m_parameter (snd e)) \<noteq> None"
proof (induction es arbitrary: pr)
  case Nil
  then show ?case by simp
next
  case (Cons x es)
  show ?case
  proof (cases "e = x")
    case True
    from fold_defaultStep_keeps_settled [OF defaultStep_settles [of e pr], of es] True
    show ?thesis by simp
  next
    case False
    with Cons.prems have "e \<in> set es" by simp
    from Cons.IH [OF this, of "defaultStep x pr"] show ?thesis by simp
  qed
qed

lemma fold_defaultStep_all_settled:
  "(\<And>e. e \<in> set es \<Longrightarrow> m_defaultValue (snd e) = None \<or> length (heap pr) \<le> m_parameter (snd e)
     \<or> p_value (heap pr ! m_parameter (snd e)) \<noteq> None) \<Longrightarrow> fold defaultStep es pr = pr"
proof (induction es)
  case Nil
  then show ?case by simp
next
  case (Cons x es)
  have "defaultStep x pr = pr" by (rule defaultStep_settled) (rule Cons.prems, simp)
  moreover have "fold defaultStep es pr = pr" by (rule Cons.IH) (rule Cons.prems, simp)
  ultimately show ?case by simp
qed

lemma defaultFill_idempotent: "fold defaultStep es (fold defaultStep es pr) = fold defaultStep es pr"
  by (rule fold_defaultStep_all_settled) (rule fold_defaultStep_settles)

text \<open>
  Claim C4. The default-fill pass leaves every parameter whose value is set as it is; a
  parameter that it changes had no value, and gets the default value of a metadata entry
  that refers to it; so a value that the raw-parse fill has set is not touched by the
  default fill that follows it. Running the default-fill pass a second time changes
  nothing, on any state and after \<open>processParsedData\<close> in particular.
\<close>

theorem defaultFill_only_unset:
  "(\<forall>a. p_value (heap pr ! a) \<noteq> None \<longrightarrow> heap (defaultFill (pr, P)) ! a = heap pr ! a)
   \<and> (\<forall>a. heap (defaultFill (pr, P)) ! a \<noteq> heap pr ! a \<longrightarrow>
          a < length (heap pr) \<and> p_value (heap pr ! a) = None
          \<and> (\<exists>n m. (n, m) \<in> set (parameterMetadata P) \<and> m_parameter m = a
                \<and> m_defaultValue m \<noteq> None
                \<and> heap (defaultFill (pr, P)) ! a = (heap pr ! a)\<lparr>p_value := m_defaultValue m\<rparr>))
   \<and> (\<forall>a. p_value (heap (valueFill data (pr, P)) ! a) \<noteq> None \<longrightarrow>
          heap (processParsedData data (pr, P)) ! a = heap (valueFill data (pr, P)) ! a)
   \<and> defaultFill (defaultFill (pr, P), P) = defaultFill (pr, P)
   \<and> defaultFill (processParsedData data (pr, P), P) = processParsedData data (pr, P)"
proof -
  have unchanged: "\<And>pr a. p_value (heap pr ! a) \<noteq> None \<Longrightarrow>
      heap (defaultFill (pr, P)) ! a = heap pr ! a"
    by (simp add: defaultFill_def fold_defaultStep_set_unchanged)
  have changed: "\<And>a. heap (defaultFill (pr, P)) ! a \<noteq> heap pr ! a \<Longrightarrow>
          a < length (heap pr) \<and> p_value (heap pr ! a) = None
          \<and> (\<exists>n m. (n, m) \<in> set (parameterMetadata P) \<and> m_parameter m = a
                \<and> m_defaultValue m \<noteq> None
                \<and> heap (defaultFill (pr, P)) ! a = (heap pr ! a)\<lparr>p_value := m_defaultValue m\<rparr>)"
    unfolding defaultFill_def prod.case by (rule fold_defaultStep_changed)
  have idem: "\<And>pr. defaultFill (defaultFill (pr, P), P) = defaultFill (pr, P)"
    by (simp add: defaultFill_def defaultFill_idempotent)
  have ppd: "processParsedData data (pr, P) = defaultFill (valueFill data (pr, P), P)"
    by (simp add: processParsedData_def)
  from unchanged changed idem show ?thesis
    unfolding ppd by blast
qed

text \<open>
  Scenario C of the spec: the option \<open>--level\<close> with the default \<open>low\<close>. A value \<open>high\<close> from
  the data stays; without a value the default is assigned, and a second default fill
  changes nothing.
\<close>

theorem defaultFill_only_unset_witness:
  "p_value (heap (valueFill (\<lambda>k. if k = ''key_0'' then Some (JStr ''high'') else None)
                    (declared [DefineOption levelOption])) ! 0) = Some (JStr ''high'')
   \<and> heap (processParsedData (\<lambda>k. if k = ''key_0'' then Some (JStr ''high'') else None)
             (declared [DefineOption levelOption])) ! 0
       = heap (valueFill (\<lambda>k. if k = ''key_0'' then Some (JStr ''high'') else None)
                 (declared [DefineOption levelOption])) ! 0
   \<and> p_value (heap (valueFill (\<lambda>k. None) (declared [DefineOption levelOption])) ! 0) = None
   \<and> p_value (heap (processParsedData (\<lambda>k. None) (declared [DefineOption levelOption])) ! 0)
       = Some (JStr ''low'')
   \<and> defaultFill (processParsedData (\<lambda>k. None) (declared [DefineOption levelOption]),
                   snd (declared [DefineOption levelOption]))
       = processParsedData (\<lambda>k. None) (declared [DefineOption levelOption])"
proof -
  let ?s = "declared [DefineOption levelOption]"
  let ?high = "\<lambda>k. if k = ''key_0'' then Some (JStr ''high'') else None"
  have s: "?s = (fst ?s, snd ?s)" by simp
  have v: "p_value (heap (valueFill ?high ?s) ! 0) = Some (JStr ''high'')"
    by (simp add: eval_defs levelOption_def)
  have n: "p_value (heap (valueFill (\<lambda>k. None) ?s) ! 0) = None"
    by (simp add: eval_defs levelOption_def)
  have d: "p_value (heap (processParsedData (\<lambda>k. None) ?s) ! 0) = Some (JStr ''low'')"
    by (simp add: eval_defs levelOption_def)
  from defaultFill_only_unset [of "fst ?s" "snd ?s" ?high] v
  have "heap (processParsedData ?high ?s) ! 0 = heap (valueFill ?high ?s) ! 0"
    by simp
  moreover from defaultFill_only_unset [of "fst ?s" "snd ?s" "\<lambda>k. None"]
  have "defaultFill (processParsedData (\<lambda>k. None) ?s, snd ?s) = processParsedData (\<lambda>k. None) ?s"
    by simp
  ultimately show ?thesis using v n d by simp
qed

subsection \<open>Generated keys\<close>

text \<open>The decimal digits of a number determine it, so the generated keys of two counter
  values differ.\<close>

lemma digit_inj: "d < 10 \<Longrightarrow> e < 10 \<Longrightarrow> digit d = digit e \<Longrightarrow> d = e"
proof -
  assume "d < 10" "e < 10" "digit d = digit e"
  have D: "\<And>n::nat. n < 10 \<Longrightarrow> n \<in> {0,1,2,3,4,5,6,7,8,9}" by auto
  from D[OF \<open>d < 10\<close>] D[OF \<open>e < 10\<close>] \<open>digit d = digit e\<close> show ?thesis
    by (auto simp: digit_def)
qed

lemma toString_nonempty: "toString n \<noteq> []"
  by (subst toString.simps) simp

lemma toString_inj: "toString n = toString m \<Longrightarrow> n = m"
proof (induction n arbitrary: m rule: toString.induct)
  case (1 n)
  show ?case
  proof (cases "n < 10")
    case True
    then have n: "toString n = [digit n]" by (subst toString.simps) simp
    show ?thesis
    proof (cases "m < 10")
      case True
      then have "toString m = [digit m]" by (subst toString.simps) simp
      with n "1.prems" \<open>n < 10\<close> True show ?thesis by (auto dest: digit_inj)
    next
      case False
      then have "toString m = toString (m div 10) @ [digit (m mod 10)]"
        by (subst toString.simps) simp
      with n "1.prems" toString_nonempty [of "m div 10"] show ?thesis
        by (cases "toString (m div 10)") auto
    qed
  next
    case False
    then have n: "toString n = toString (n div 10) @ [digit (n mod 10)]"
      by (subst toString.simps) simp
    show ?thesis
    proof (cases "m < 10")
      case True
      then have "toString m = [digit m]" by (subst toString.simps) simp
      with n "1.prems" toString_nonempty [of "n div 10"] show ?thesis
        by (cases "toString (n div 10)") auto
    next
      case False
      then have m: "toString m = toString (m div 10) @ [digit (m mod 10)]"
        by (subst toString.simps) simp
      from n m "1.prems" have a: "toString (n div 10) = toString (m div 10)"
        and b: "digit (n mod 10) = digit (m mod 10)" by auto
      from "1.IH" [OF \<open>\<not> n < 10\<close> a] have "n div 10 = m div 10" .
      moreover from b have "n mod 10 = m mod 10" by (auto intro: digit_inj)
      ultimately show ?thesis by (metis div_mult_mod_eq)
    qed
  qed
qed

lemma toString_eq_iff [simp]: "toString n = toString m \<longleftrightarrow> n = m"
  by (auto dest: toString_inj)

text \<open>
  The three ways \<^verbatim>\<open>_createParameter\<close> can end: the key is refused, the tokenizer throws, or
  the parameter is created. Each comes with the state it leaves.
\<close>

lemma heap_defaultKey [simp]: "heap (snd (defaultKey ka pr)) = heap pr"
  by (simp add: defaultKey_def split: option.splits)

lemma createParameter_cases:
  assumes "createParameter A d opts ka (pr, P) = (r, pr', P')"
  obtains (duplicate) owner where
      "r = Inl (DuplicateKeyError (parameterLongName d) owner)"
      "map_of (keys P) (fst (defaultKey ka pr)) = Some owner" "owner \<noteq> []"
      "pr' = snd (defaultKey ka pr)" "P' = P"
    | (rejected)
      "r = Inl TokenizerError"
      "map_of (keys P) (fst (defaultKey ka pr)) = None
         \<or> map_of (keys P) (fst (defaultKey ka pr)) = Some []"
      "A (names d) (baseArgparseOptions d opts (fst (defaultKey ka pr))) (argumentParser P) = None"
      "pr' = (snd (defaultKey ka pr))
               \<lparr>heap := heap pr @ [\<lparr>p_key = fst (defaultKey ka pr), p_value = None\<rparr>]\<rparr>"
      "P' = P\<lparr>keys := Map_set (fst (defaultKey ka pr)) (parameterLongName d) (keys P),
              parameters := parameters P @ [length (heap pr)]\<rparr>"
    | (created) tok where
      "r = Inr (length (heap pr))"
      "map_of (keys P) (fst (defaultKey ka pr)) = None
         \<or> map_of (keys P) (fst (defaultKey ka pr)) = Some []"
      "A (names d) (baseArgparseOptions d opts (fst (defaultKey ka pr))) (argumentParser P)
         = Some tok"
      "pr' = (snd (defaultKey ka pr))
               \<lparr>heap := heap pr @ [\<lparr>p_key = fst (defaultKey ka pr), p_value = None\<rparr>]\<rparr>"
      "P' = P\<lparr>keys := Map_set (fst (defaultKey ka pr)) (parameterLongName d) (keys P),
              parameters := parameters P @ [length (heap pr)],
              argumentParser := tok,
              parameterMetadata :=
                Map_set (parameterLongName d)
                  \<lparr>m_parameter = length (heap pr), m_required = (required d = Some True),
                   m_defaultValue = defaultValue d\<rparr> (parameterMetadata P)\<rparr>"
proof -
  obtain k pr1 where dk: "defaultKey ka pr = (k, pr1)" by (cases "defaultKey ka pr")
  have h1: "heap pr1 = heap pr" using heap_defaultKey [of ka pr] dk by simp
  show thesis
  proof (cases "map_of (keys P) k")
    case None
    with assms dk h1 show ?thesis
      by (auto simp: createParameter_def getKey_def Let_def split: option.splits intro: rejected created)
  next
    case (Some owner)
    show ?thesis
    proof (cases "owner = []")
      case True
      with Some assms dk h1 show ?thesis
        by (auto simp: createParameter_def getKey_def Let_def split: option.splits
            intro: rejected created)
    next
      case False
      with Some assms dk show ?thesis
        by (auto simp: createParameter_def getKey_def Let_def intro: duplicate)
    qed
  qed
qed

text \<open>Every declaring operation either rejects the definition or goes on to
  \<^verbatim>\<open>_createParameter\<close> with the explicit key of the declaration.\<close>

lemma defineParameter_cases:
  "(\<exists>x. defineParameter A c s = (Inl (InvalidDefinitionError x), s))
   \<or> (\<exists>opts. defineParameter A c s = createParameter A (definitionOf c) opts (explicitKey c) s)"
proof (cases c)
  case (DefineOption d)
  show ?thesis
  proof (cases "options d")
    case None
    with DefineOption show ?thesis by (simp add: defineOptionParameter_def)
  next
    case (Some os)
    with DefineOption show ?thesis
      by (cases "truthy (defaultValue d) \<and> indexOf os (defaultValue d) = - 1")
         (auto simp: defineOptionParameter_def)
  qed
qed (auto simp: defineFlagParameter_def defineStringParameter_def
        defineStringListParameter_def defineIntegerParameter_def)

text \<open>What one declaration does to the process, whatever its outcome.\<close>

lemma defineParameter_process:
  assumes "defineParameter A c (pr, P) = (r, pr', P')"
  shows "keyCounter pr \<le> keyCounter pr'
         \<and> (\<exists>ext. heap pr' = heap pr @ ext)
         \<and> (\<forall>a. r = Inr a \<longrightarrow> a = length (heap pr) \<and> a < length (heap pr')
               \<and> (explicitKey c = None \<longrightarrow>
                    p_key (heap pr' ! a) = keyName (keyCounter pr)
                    \<and> keyCounter pr' = keyCounter pr + 1))"
proof -
  from defineParameter_cases [of A c "(pr, P)"] show ?thesis
  proof
    assume "\<exists>x. defineParameter A c (pr, P) = (Inl (InvalidDefinitionError x), pr, P)"
    with assms show ?thesis by auto
  next
    assume "\<exists>opts. defineParameter A c (pr, P)
              = createParameter A (definitionOf c) opts (explicitKey c) (pr, P)"
    then obtain opts where
      "createParameter A (definitionOf c) opts (explicitKey c) (pr, P) = (r, pr', P')"
      using assms by auto
    then show ?thesis
      by (cases rule: createParameter_cases)
         (auto simp: defaultKey_def split: option.splits)
  qed
qed

subsection \<open>One counter for all providers\<close>

lemma generatedKeys_append:
  "(\<And>a. Inr a \<in> set rs \<Longrightarrow> a < length h) \<Longrightarrow>
     generatedKeys ops rs (h @ ext) = generatedKeys ops rs h"
  by (induction ops rs h rule: generatedKeys.induct) (auto simp: nth_append)

lemma declareEach_generated:
  assumes "declareEach A ops (pr, Ps) = (rs, pr', Ps')"
  shows "keyCounter pr \<le> keyCounter pr'
         \<and> (\<exists>ext. heap pr' = heap pr @ ext)
         \<and> (\<forall>a. Inr a \<in> set rs \<longrightarrow> a < length (heap pr'))
         \<and> distinct (generatedKeys ops rs (heap pr'))
         \<and> set (generatedKeys ops rs (heap pr'))
             \<subseteq> (\<lambda>n. keyName n) ` {keyCounter pr ..< keyCounter pr'}"
  using assms
proof (induction ops arbitrary: pr Ps rs pr' Ps')
  case Nil
  then show ?case by simp
next
  case (Cons op ops)
  obtain i c where op: "op = (i, c)" by (cases op)
  obtain r pr1 P1 where step: "defineParameter A c (pr, Ps i) = (r, pr1, P1)"
    by (cases "defineParameter A c (pr, Ps i)")
  obtain rs1 pr2 Ps2 where rest: "declareEach A ops (pr1, Ps(i := P1)) = (rs1, pr2, Ps2)"
    by (cases "declareEach A ops (pr1, Ps(i := P1))")
  from Cons.prems op step rest have res: "rs = r # rs1" "pr' = pr2" "Ps' = Ps2" by auto
  from defineParameter_process [OF step]
  have c1: "keyCounter pr \<le> keyCounter pr1"
    and h1: "\<exists>ext. heap pr1 = heap pr @ ext"
    and r1: "\<And>a. r = Inr a \<Longrightarrow> a = length (heap pr) \<and> a < length (heap pr1)
               \<and> (explicitKey c = None \<longrightarrow>
                    p_key (heap pr1 ! a) = keyName (keyCounter pr)
                    \<and> keyCounter pr1 = keyCounter pr + 1)"
    by auto
  from Cons.IH [OF rest]
  have c2: "keyCounter pr1 \<le> keyCounter pr2"
    and h2: "\<exists>ext. heap pr2 = heap pr1 @ ext"
    and r2: "\<And>a. Inr a \<in> set rs1 \<Longrightarrow> a < length (heap pr2)"
    and d2: "distinct (generatedKeys ops rs1 (heap pr2))"
    and s2: "set (generatedKeys ops rs1 (heap pr2))
               \<subseteq> (\<lambda>n. keyName n) ` {keyCounter pr1 ..< keyCounter pr2}"
    by auto
  from h2 obtain ext2 where ext2: "heap pr2 = heap pr1 @ ext2" by auto
  have A1: "keyCounter pr \<le> keyCounter pr'" using c1 c2 res by simp
  have A2: "\<exists>ext. heap pr' = heap pr @ ext" using h1 ext2 res by auto
  have A3: "\<forall>a. Inr a \<in> set rs \<longrightarrow> a < length (heap pr')"
    using r1 r2 ext2 res by auto
  have "{keyCounter pr1 ..< keyCounter pr2} \<subseteq> {keyCounter pr ..< keyCounter pr2}"
    using c1 by auto
  then have "(\<lambda>n. keyName n) ` {keyCounter pr1 ..< keyCounter pr2}
               \<subseteq> (\<lambda>n. keyName n) ` {keyCounter pr ..< keyCounter pr2}"
    by (rule image_mono)
  with s2 have s2': "set (generatedKeys ops rs1 (heap pr2))
               \<subseteq> (\<lambda>n. keyName n) ` {keyCounter pr ..< keyCounter pr2}"
    by (rule order_trans)
  show ?case
  proof (cases "\<exists>a. r = Inr a \<and> explicitKey c = None")
    case False
    then have "generatedKeys (op # ops) rs (heap pr') = generatedKeys ops rs1 (heap pr2)"
      unfolding op res by (cases r) auto
    with A1 A2 A3 d2 s2' res show ?thesis by simp
  next
    case True
    then obtain a where a: "r = Inr a" "explicitKey c = None" by auto
    from r1 [OF a(1)] a(2)
    have al: "a < length (heap pr1)" and ak: "p_key (heap pr1 ! a) = keyName (keyCounter pr)"
      and ac: "keyCounter pr1 = keyCounter pr + 1" by auto
    from al ak ext2 have ak2: "p_key (heap pr2 ! a) = keyName (keyCounter pr)"
      by (simp add: nth_append)
    have g: "generatedKeys (op # ops) rs (heap pr')
               = keyName (keyCounter pr) # generatedKeys ops rs1 (heap pr2)"
      unfolding op res using a ak2 by simp
    have notin: "keyName (keyCounter pr) \<notin> set (generatedKeys ops rs1 (heap pr2))"
      using s2 ac by auto
    have "keyCounter pr < keyCounter pr2" using ac c2 by simp
    then have "keyName (keyCounter pr) \<in> (\<lambda>n. keyName n) ` {keyCounter pr ..< keyCounter pr2}"
      by simp
    with A1 A2 A3 d2 s2' notin g res show ?thesis by simp
  qed
qed

text \<open>
  Claim C10. The key counter belongs to the process, not to a provider. Whatever
  declarations are made on whatever provider instances of a process, in any order and from
  any state, the keys of the parameters that were declared without an explicit key are
  pairwise distinct, across the instances as within one; and each is \<open>key_n\<close> for a counter
  value \<open>n\<close> that the run went through, so it differs from every key generated before the
  run.
\<close>

theorem generated_keys_distinct_across_providers:
  assumes "declareEach A ops (pr, Ps) = (rs, pr', Ps')"
  shows "distinct (generatedKeys ops rs (heap pr'))
         \<and> set (generatedKeys ops rs (heap pr'))
             \<subseteq> (\<lambda>n. ''key_'' @ toString n) ` {keyCounter pr ..< keyCounter pr'}"
  using declareEach_generated [OF assms] by simp

text \<open>
  Two providers, declared on in turn: the flags of provider 0 and provider 1 and the option
  of provider 1 get \<open>key_0\<close>, \<open>key_1\<close> and \<open>key_2\<close>.
\<close>

theorem generated_keys_distinct_across_providers_witness:
  "generatedKeys
     [(0, DefineFlag (plainDefinition ''--a'' None)), (1, DefineFlag (plainDefinition ''--b'' None)),
      (0, DefineString (plainDefinition ''--c'' (Some ''x''))),
      (1, DefineOption levelOption)]
     (fst (declareEach recordArgument
        [(0, DefineFlag (plainDefinition ''--a'' None)), (1, DefineFlag (plainDefinition ''--b'' None)),
         (0, DefineString (plainDefinition ''--c'' (Some ''x''))),
         (1, DefineOption levelOption)]
        (newProcess, \<lambda>i. newProvider [])))
     (heap (fst (snd (declareEach recordArgument
        [(0, DefineFlag (plainDefinition ''--a'' None)), (1, DefineFlag (plainDefinition ''--b'' None)),
         (0, DefineString (plainDefinition ''--c'' (Some ''x''))),
         (1, DefineOption levelOption)]
        (newProcess, \<lambda>i. newProvider [])))))
     = [''key_0'', ''key_1'', ''key_2'']
   \<and> distinct [''key_0'', ''key_1'', ''key_2'']"
proof -
  let ?ops = "[(0, DefineFlag (plainDefinition ''--a'' None)), (1, DefineFlag (plainDefinition ''--b'' None)),
      (0, DefineString (plainDefinition ''--c'' (Some ''x''))),
      (1, DefineOption levelOption)]"
  let ?w = "declareEach recordArgument ?ops (newProcess, \<lambda>i. newProvider [])"
  have e: "generatedKeys ?ops (fst ?w) (heap (fst (snd ?w))) = [''key_0'', ''key_1'', ''key_2'']"
    by (simp add: eval_defs levelOption_def)
  have "declareEach recordArgument ?ops (newProcess, \<lambda>i. newProvider [])
          = (fst ?w, fst (snd ?w), snd (snd ?w))"
    by simp
  from generated_keys_distinct_across_providers [OF this]
  have "distinct (generatedKeys ?ops (fst ?w) (heap (fst (snd ?w))))" by simp
  with e show ?thesis by simp
qed

subsection \<open>Declarations without explicit keys\<close>

lemma set_fst_Map_set: "fst ` set (Map_set k v m) = insert k (fst ` set m)"
proof -
  have "set (map fst (Map_set k v m)) = insert k (set (map fst m))"
    unfolding map_fst_Map_set by auto
  then show ?thesis by simp
qed

lemma parameterKeys_extended:
  assumes "\<forall>a \<in> set ps. a < length h"
  shows "map (\<lambda>a. p_key ((h @ [\<lparr>p_key = k, p_value = None\<rparr>]) ! a)) (ps @ [length h])
           = map (\<lambda>a. p_key (h ! a)) ps @ [k]"
  using assms by (simp add: nth_append)

text \<open>
  The invariant of a provider whose keys were all generated: the registry holds keys of
  counter values that are past, and so do the parameters, each a different one.
\<close>

lemma defineParameter_generated_step:
  assumes step: "defineParameter A c (pr, P) = (r, pr', P')"
    and auto: "explicitKey c = None"
    and reg: "fst ` set (keys P) \<subseteq> (\<lambda>n. keyName n) ` {..< keyCounter pr}"
    and valid: "\<forall>a \<in> set (parameters P). a < length (heap pr)"
    and dist: "distinct (parameterKeys (pr, P))"
    and gen: "set (parameterKeys (pr, P)) \<subseteq> (\<lambda>n. keyName n) ` {c0 ..< keyCounter pr}"
    and c0: "c0 \<le> keyCounter pr"
  shows "\<not> isDuplicateKeyError r
         \<and> fst ` set (keys P') \<subseteq> (\<lambda>n. keyName n) ` {..< keyCounter pr'}
         \<and> (\<forall>a \<in> set (parameters P'). a < length (heap pr'))
         \<and> distinct (parameterKeys (pr', P'))
         \<and> set (parameterKeys (pr', P')) \<subseteq> (\<lambda>n. keyName n) ` {c0 ..< keyCounter pr'}
         \<and> c0 \<le> keyCounter pr'"
proof -
  have fresh: "map_of (keys P) (keyName (keyCounter pr)) = None"
  proof (cases "map_of (keys P) (keyName (keyCounter pr))")
    case (Some owner)
    then have "keyName (keyCounter pr) \<in> fst ` set (keys P)"
      by (auto dest!: map_of_SomeD simp: rev_image_eqI)
    with reg show ?thesis by auto
  qed simp
  have dk: "defaultKey None pr = (keyName (keyCounter pr), pr\<lparr>keyCounter := keyCounter pr + 1\<rparr>)"
    by (simp add: defaultKey_def)
  have mono1: "(\<lambda>n. keyName n) ` {..< keyCounter pr} \<subseteq> (\<lambda>n. keyName n) ` {..< keyCounter pr + 1}"
    by (rule image_mono) auto
  have mono2: "(\<lambda>n. keyName n) ` {c0 ..< keyCounter pr}
                \<subseteq> (\<lambda>n. keyName n) ` {c0 ..< keyCounter pr + 1}"
    by (rule image_mono) auto
  have new1: "keyName (keyCounter pr) \<in> (\<lambda>n. keyName n) ` {..< keyCounter pr + 1}"
    by simp
  have new2: "keyName (keyCounter pr) \<in> (\<lambda>n. keyName n) ` {c0 ..< keyCounter pr + 1}"
    using c0 by simp
  have notold: "keyName (keyCounter pr) \<notin> set (parameterKeys (pr, P))"
    using gen by auto
  have grown: "parameterKeys
       (pr\<lparr>keyCounter := keyCounter pr + 1,
           heap := heap pr @ [\<lparr>p_key = keyName (keyCounter pr), p_value = None\<rparr>]\<rparr>,
        Q\<lparr>parameters := parameters P @ [length (heap pr)]\<rparr>)
       = parameterKeys (pr, P) @ [keyName (keyCounter pr)]" for Q :: "'a provider"
    using parameterKeys_extended [OF valid] by (simp add: parameterKeys_def)
  from defineParameter_cases [of A c "(pr, P)"] show ?thesis
  proof
    assume "\<exists>x. defineParameter A c (pr, P) = (Inl (InvalidDefinitionError x), pr, P)"
    with step reg valid dist gen c0 show ?thesis by auto
  next
    assume "\<exists>opts. defineParameter A c (pr, P)
              = createParameter A (definitionOf c) opts (explicitKey c) (pr, P)"
    then obtain opts where
      cp: "createParameter A (definitionOf c) opts None (pr, P) = (r, pr', P')"
      using step auto by auto
    from cp show ?thesis
    proof (cases rule: createParameter_cases)
      case (duplicate owner)
      with fresh dk show ?thesis by simp
    next
      case rejected
      have keys': "fst ` set (keys P') \<subseteq> (\<lambda>n. keyName n) ` {..< keyCounter pr'}"
        using rejected dk reg mono1 new1 by (auto simp: set_fst_Map_set)
      have pk: "parameterKeys (pr', P') = parameterKeys (pr, P) @ [keyName (keyCounter pr)]"
        using rejected dk grown [of "P\<lparr>keys := Map_set (keyName (keyCounter pr))
            (parameterLongName (definitionOf c)) (keys P)\<rparr>"] by simp
      have valid': "\<forall>a \<in> set (parameters P'). a < length (heap pr')"
        using rejected dk valid by auto
      have cnt: "keyCounter pr' = keyCounter pr + 1" using rejected dk by simp
      from rejected keys' pk valid' cnt dist gen mono2 new2 notold c0 show ?thesis by auto
    next
      case (created tok)
      have keys': "fst ` set (keys P') \<subseteq> (\<lambda>n. keyName n) ` {..< keyCounter pr'}"
        using created dk reg mono1 new1 by (auto simp: set_fst_Map_set)
      have pk: "parameterKeys (pr', P') = parameterKeys (pr, P) @ [keyName (keyCounter pr)]"
        using created dk grown [of "P\<lparr>keys := Map_set (keyName (keyCounter pr))
            (parameterLongName (definitionOf c)) (keys P),
            argumentParser := tok,
            parameterMetadata := Map_set (parameterLongName (definitionOf c))
                  \<lparr>m_parameter = length (heap pr),
                   m_required = (required (definitionOf c) = Some True),
                   m_defaultValue = defaultValue (definitionOf c)\<rparr> (parameterMetadata P)\<rparr>"]
        by (simp add: parameterKeys_def)
      have valid': "\<forall>a \<in> set (parameters P'). a < length (heap pr')"
        using created dk valid by auto
      have cnt: "keyCounter pr' = keyCounter pr + 1" using created dk by simp
      from created keys' pk valid' cnt dist gen mono2 new2 notold c0 show ?thesis by auto
    qed
  qed
qed

lemma declareAll_generated:
  assumes "declareAll A ds (pr, P) = (rs, pr', P')"
    and "\<forall>c \<in> set ds. explicitKey c = None"
    and "fst ` set (keys P) \<subseteq> (\<lambda>n. keyName n) ` {..< keyCounter pr}"
    and "\<forall>a \<in> set (parameters P). a < length (heap pr)"
    and "distinct (parameterKeys (pr, P))"
    and "set (parameterKeys (pr, P)) \<subseteq> (\<lambda>n. keyName n) ` {c0 ..< keyCounter pr}"
    and "c0 \<le> keyCounter pr"
  shows "(\<forall>r \<in> set rs. \<not> isDuplicateKeyError r)
         \<and> distinct (parameterKeys (pr', P'))
         \<and> set (parameterKeys (pr', P')) \<subseteq> (\<lambda>n. keyName n) ` {c0 ..< keyCounter pr'}"
  using assms
proof (induction ds arbitrary: pr P rs)
  case Nil
  then show ?case by simp
next
  case (Cons c ds)
  obtain r pr1 P1 where step: "defineParameter A c (pr, P) = (r, pr1, P1)"
    by (cases "defineParameter A c (pr, P)")
  obtain rs1 where rest: "declareAll A ds (pr1, P1) = (rs1, pr', P')" and rs: "rs = r # rs1"
    using Cons.prems(1) step by (auto split: prod.splits)
  from Cons.prems(2) have auto: "explicitKey c = None" and autos: "\<forall>c \<in> set ds. explicitKey c = None"
    by simp_all
  from defineParameter_generated_step [OF step auto Cons.prems(3-7)]
  have r: "\<not> isDuplicateKeyError r"
    and inv: "fst ` set (keys P1) \<subseteq> (\<lambda>n. keyName n) ` {..< keyCounter pr1}"
      "\<forall>a \<in> set (parameters P1). a < length (heap pr1)"
      "distinct (parameterKeys (pr1, P1))"
      "set (parameterKeys (pr1, P1)) \<subseteq> (\<lambda>n. keyName n) ` {c0 ..< keyCounter pr1}"
      "c0 \<le> keyCounter pr1"
    by simp_all
  from Cons.IH [OF rest autos inv] r rs show ?case by simp
qed

text \<open>
  Claim C6. On a new provider, in a process whose counter stands anywhere, a sequence of
  declarations none of which supplies an explicit key never fails in key assignment; the
  keys that the provider's parameters hold are pairwise distinct, and each is \<open>key_n\<close> for a
  counter value \<open>n\<close> of this run, hence distinct from every key generated in the process
  before.
\<close>

theorem generated_keys_never_collide:
  assumes "\<forall>c \<in> set ds. explicitKey c = None"
    and "declareAll A ds (pr, newProvider tok) = (rs, pr', P')"
  shows "(\<forall>r \<in> set rs. \<not> isDuplicateKeyError r)
         \<and> distinct (parameterKeys (pr', P'))
         \<and> set (parameterKeys (pr', P'))
             \<subseteq> (\<lambda>n. ''key_'' @ toString n) ` {keyCounter pr ..< keyCounter pr'}"
  by (rule declareAll_generated [OF assms(2) assms(1)])
     (simp_all add: newProvider_def parameterKeys_def)

text \<open>
  Three declarations without a key, in a process that has generated seven keys before: all
  succeed, and the parameters hold \<open>key_7\<close>, \<open>key_8\<close> and \<open>key_9\<close>.
\<close>

theorem generated_keys_never_collide_witness:
  "fst (declareAll recordArgument
         [DefineFlag (plainDefinition ''--a'' None), DefineOption levelOption,
          DefineFlag (plainDefinition ''--a'' None)]
         (newProcess\<lparr>keyCounter := 7\<rparr>, newProvider [])) = [Inr 0, Inr 1, Inr 2]
   \<and> parameterKeys (snd (declareAll recordArgument
         [DefineFlag (plainDefinition ''--a'' None), DefineOption levelOption,
          DefineFlag (plainDefinition ''--a'' None)]
         (newProcess\<lparr>keyCounter := 7\<rparr>, newProvider []))) = [''key_7'', ''key_8'', ''key_9'']
   \<and> distinct [''key_7'', ''key_8'', ''key_9'']"
proof -
  let ?ds = "[DefineFlag (plainDefinition ''--a'' None), DefineOption levelOption,
          DefineFlag (plainDefinition ''--a'' None)]"
  let ?x = "declareAll recordArgument ?ds (newProcess\<lparr>keyCounter := 7\<rparr>, newProvider [])"
  have a: "\<forall>c \<in> set ?ds. explicitKey c = None" by simp
  have e: "fst ?x = [Inr 0, Inr 1, Inr 2]" "parameterKeys (snd ?x) = [''key_7'', ''key_8'', ''key_9'']"
    by (simp_all add: eval_defs levelOption_def)
  have "declareAll recordArgument ?ds (newProcess\<lparr>keyCounter := 7\<rparr>, newProvider [])
          = (fst ?x, fst (snd ?x), snd (snd ?x))"
    by simp
  from generated_keys_never_collide [OF a this]
  have "distinct (parameterKeys (snd ?x))" by simp
  with e show ?thesis by simp
qed

subsection \<open>A parameter that is created\<close>

lemma defaultKey_heap_update:
  "defaultKey ka (pr\<lparr>heap := h\<rparr>) = (fst (defaultKey ka pr), (snd (defaultKey ka pr))\<lparr>heap := h\<rparr>)"
  by (simp add: defaultKey_def split: option.splits)

lemma Map_set_twice: "Map_set k v (Map_set k u m) = Map_set k v m"
  by (induction m) auto

lemma distinct_Map_set: "distinct (map fst m) \<Longrightarrow> distinct (map fst (Map_set k v m))"
  by (simp add: map_fst_Map_set)

text \<open>What \<^verbatim>\<open>_createParameter\<close> returns when the key is free and the tokenizer accepts.\<close>

lemma createParameter_created:
  assumes "map_of (keys P) (fst (defaultKey ka pr)) = None"
    and "A (names d) (baseArgparseOptions d opts (fst (defaultKey ka pr))) (argumentParser P)
           = Some tok"
  shows "createParameter A d opts ka (pr, P) =
           (Inr (length (heap pr)),
            (snd (defaultKey ka pr))
               \<lparr>heap := heap pr @ [\<lparr>p_key = fst (defaultKey ka pr), p_value = None\<rparr>]\<rparr>,
            P\<lparr>keys := Map_set (fst (defaultKey ka pr)) (parameterLongName d) (keys P),
              parameters := parameters P @ [length (heap pr)],
              argumentParser := tok,
              parameterMetadata :=
                Map_set (parameterLongName d)
                  \<lparr>m_parameter = length (heap pr), m_required = (required d = Some True),
                   m_defaultValue = defaultValue d\<rparr> (parameterMetadata P)\<rparr>)"
proof -
  obtain k pr1 where dk: "defaultKey ka pr = (k, pr1)" by (cases "defaultKey ka pr")
  have h1: "heap pr1 = heap pr" using heap_defaultKey [of ka pr] dk by simp
  from assms dk h1 show ?thesis
    by (simp add: createParameter_def getKey_def Let_def)
qed

subsection \<open>The shape of a provider and the two loops\<close>

lemma set_Map_set: "e \<in> set (Map_set k v m) \<Longrightarrow> e = (k, v) \<or> e \<in> set m"
  by (induction m) (auto split: if_splits)

lemma distinct_values_Map_set:
  "distinct (map (\<lambda>e. f (snd e)) m) \<Longrightarrow> f v \<notin> (\<lambda>e. f (snd e)) ` set m \<Longrightarrow>
     distinct (map (\<lambda>e. f (snd e)) (Map_set k v m))"
proof (induction m)
  case Nil
  then show ?case by simp
next
  case (Cons x m)
  obtain k' v' where x: "x = (k', v')" by (cases x)
  show ?case
  proof (cases "k' = k")
    case True
    with Cons.prems x show ?thesis by auto
  next
    case False
    from Cons.prems x have d: "distinct (map (\<lambda>e. f (snd e)) (Map_set k v m))"
      by (intro Cons.IH) auto
    have "f v' \<notin> (\<lambda>e. f (snd e)) ` set (Map_set k v m)"
    proof
      assume "f v' \<in> (\<lambda>e. f (snd e)) ` set (Map_set k v m)"
      then obtain e where e: "e \<in> set (Map_set k v m)" "f v' = f (snd e)" by auto
      from e(1) have "e = (k, v) \<or> e \<in> set m" by (rule set_Map_set)
      with e(2) Cons.prems x show False by auto
    qed
    with d False x show ?thesis by simp
  qed
qed

text \<open>
  The shape of the state of a provider: the parameters are allocated, every metadata entry
  holds a parameter of the list, no two entries hold the same parameter, and no two have the
  same long name.
\<close>

lemma defineParameter_shape:
  assumes step: "defineParameter A c (pr, P) = (r, pr', P')"
    and W1: "\<forall>a \<in> set (parameters P). a < length (heap pr)"
    and W2: "(\<lambda>e. m_parameter (snd e)) ` set (parameterMetadata P) \<subseteq> set (parameters P)"
    and W3: "distinct (map (\<lambda>e. m_parameter (snd e)) (parameterMetadata P))"
    and W4: "distinct (map fst (parameterMetadata P))"
  shows "(\<forall>a \<in> set (parameters P'). a < length (heap pr'))
       \<and> (\<lambda>e. m_parameter (snd e)) ` set (parameterMetadata P') \<subseteq> set (parameters P')
       \<and> distinct (map (\<lambda>e. m_parameter (snd e)) (parameterMetadata P'))
       \<and> distinct (map fst (parameterMetadata P'))
       \<and> (\<exists>ext. heap pr' = heap pr @ ext)
       \<and> set (parameters P) \<subseteq> set (parameters P')
       \<and> (\<forall>n. n \<noteq> parameterLongName (definitionOf c) \<longrightarrow>
             map_of (parameterMetadata P') n = map_of (parameterMetadata P) n)
       \<and> (\<forall>a. r = Inr a \<longrightarrow>
             a < length (heap pr') \<and> a \<in> set (parameters P')
             \<and> map_of (parameterMetadata P') (parameterLongName (definitionOf c))
                 = Some \<lparr>m_parameter = a, m_required = (required (definitionOf c) = Some True),
                         m_defaultValue = defaultValue (definitionOf c)\<rparr>)"
proof -
  let ?l = "length (heap pr)"
  have notin: "?l \<notin> (\<lambda>e. m_parameter (snd e)) ` set (parameterMetadata P)"
    using W1 W2 by auto
  from defineParameter_cases [of A c "(pr, P)"] show ?thesis
  proof
    assume "\<exists>x. defineParameter A c (pr, P) = (Inl (InvalidDefinitionError x), pr, P)"
    with step W1 W2 W3 W4 show ?thesis by auto
  next
    assume "\<exists>opts. defineParameter A c (pr, P)
              = createParameter A (definitionOf c) opts (explicitKey c) (pr, P)"
    then obtain opts where
      cp: "createParameter A (definitionOf c) opts (explicitKey c) (pr, P) = (r, pr', P')"
      using step by auto
    from cp show ?thesis
    proof (cases rule: createParameter_cases)
      case (duplicate owner)
      with W1 W2 W3 W4 show ?thesis by auto
    next
      case rejected
      with W1 W2 W3 W4 show ?thesis by auto
    next
      case (created tok)
      let ?m = "\<lparr>m_parameter = ?l, m_required = (required (definitionOf c) = Some True),
                   m_defaultValue = defaultValue (definitionOf c)\<rparr>"
      let ?md = "Map_set (parameterLongName (definitionOf c)) ?m (parameterMetadata P)"
      have md: "parameterMetadata P' = ?md" and ps: "parameters P' = parameters P @ [?l]"
        and hp: "heap pr' = heap pr @ [\<lparr>p_key = fst (defaultKey (explicitKey c) pr), p_value = None\<rparr>]"
        using created by simp_all
      have A1: "\<forall>a \<in> set (parameters P'). a < length (heap pr')"
        using W1 ps hp by auto
      have A2: "(\<lambda>e. m_parameter (snd e)) ` set (parameterMetadata P') \<subseteq> set (parameters P')"
      proof
        fix a assume "a \<in> (\<lambda>e. m_parameter (snd e)) ` set (parameterMetadata P')"
        then obtain e where e: "e \<in> set ?md" "a = m_parameter (snd e)" unfolding md by auto
        from e(1) have "e = (parameterLongName (definitionOf c), ?m) \<or> e \<in> set (parameterMetadata P)"
          by (rule set_Map_set)
        with e(2) W2 show "a \<in> set (parameters P')" unfolding ps by auto
      qed
      have A3: "distinct (map (\<lambda>e. m_parameter (snd e)) (parameterMetadata P'))"
        unfolding md using W3 notin by (intro distinct_values_Map_set) auto
      have A4: "distinct (map fst (parameterMetadata P'))"
        unfolding md using W4 by (rule distinct_Map_set)
      have A7: "\<forall>n. n \<noteq> parameterLongName (definitionOf c) \<longrightarrow>
             map_of (parameterMetadata P') n = map_of (parameterMetadata P) n"
        unfolding md by (simp add: map_of_Map_set)
      have A8: "map_of (parameterMetadata P') (parameterLongName (definitionOf c)) = Some ?m"
        unfolding md by (simp add: map_of_Map_set)
      from A1 A2 A3 A4 A7 A8 ps hp created(1) show ?thesis by auto
    qed
  qed
qed

lemma declareAll_shape:
  assumes "declareAll A ds (pr, P) = (rs, pr', P')"
    and "\<forall>a \<in> set (parameters P). a < length (heap pr)"
    and "(\<lambda>e. m_parameter (snd e)) ` set (parameterMetadata P) \<subseteq> set (parameters P)"
    and "distinct (map (\<lambda>e. m_parameter (snd e)) (parameterMetadata P))"
    and "distinct (map fst (parameterMetadata P))"
  shows "(\<forall>a \<in> set (parameters P'). a < length (heap pr'))
       \<and> (\<lambda>e. m_parameter (snd e)) ` set (parameterMetadata P') \<subseteq> set (parameters P')
       \<and> distinct (map (\<lambda>e. m_parameter (snd e)) (parameterMetadata P'))
       \<and> distinct (map fst (parameterMetadata P'))
       \<and> (\<exists>ext. heap pr' = heap pr @ ext)
       \<and> set (parameters P) \<subseteq> set (parameters P')
       \<and> (\<forall>n. (\<forall>c \<in> set ds. parameterLongName (definitionOf c) \<noteq> n) \<longrightarrow>
             map_of (parameterMetadata P') n = map_of (parameterMetadata P) n)"
  using assms
proof (induction ds arbitrary: pr P rs)
  case Nil
  then show ?case by simp
next
  case (Cons c ds)
  obtain r pr1 P1 where step: "defineParameter A c (pr, P) = (r, pr1, P1)"
    by (cases "defineParameter A c (pr, P)")
  obtain rs1 where rest: "declareAll A ds (pr1, P1) = (rs1, pr', P')"
    using Cons.prems(1) step by (auto split: prod.splits)
  from defineParameter_shape [OF step Cons.prems(2-5)]
  have inv: "\<forall>a \<in> set (parameters P1). a < length (heap pr1)"
      "(\<lambda>e. m_parameter (snd e)) ` set (parameterMetadata P1) \<subseteq> set (parameters P1)"
      "distinct (map (\<lambda>e. m_parameter (snd e)) (parameterMetadata P1))"
      "distinct (map fst (parameterMetadata P1))"
    and h1: "\<exists>ext. heap pr1 = heap pr @ ext"
    and p1: "set (parameters P) \<subseteq> set (parameters P1)"
    and m1: "\<forall>n. n \<noteq> parameterLongName (definitionOf c) \<longrightarrow>
             map_of (parameterMetadata P1) n = map_of (parameterMetadata P) n"
    by simp_all
  from Cons.IH [OF rest inv]
  have inv': "\<forall>a \<in> set (parameters P'). a < length (heap pr')"
      "(\<lambda>e. m_parameter (snd e)) ` set (parameterMetadata P') \<subseteq> set (parameters P')"
      "distinct (map (\<lambda>e. m_parameter (snd e)) (parameterMetadata P'))"
      "distinct (map fst (parameterMetadata P'))"
    and h2: "\<exists>ext. heap pr' = heap pr1 @ ext"
    and p2: "set (parameters P1) \<subseteq> set (parameters P')"
    and m2: "\<forall>n. (\<forall>c \<in> set ds. parameterLongName (definitionOf c) \<noteq> n) \<longrightarrow>
             map_of (parameterMetadata P') n = map_of (parameterMetadata P1) n"
    by simp_all
  from h1 h2 have h: "\<exists>ext. heap pr' = heap pr @ ext" by auto
  from p1 p2 have p: "set (parameters P) \<subseteq> set (parameters P')" by auto
  from m1 m2 have m: "\<forall>n. (\<forall>c \<in> set (c # ds). parameterLongName (definitionOf c) \<noteq> n) \<longrightarrow>
             map_of (parameterMetadata P') n = map_of (parameterMetadata P) n"
    by auto
  from inv' h p m show ?case by simp
qed

text \<open>The first loop: a parameter of the list gets the data of its key; keys stay.\<close>

lemma valueStep_key:
  "p_key ((h[b := setValue data (h ! b)]) ! a) = p_key (h ! a)"
  by (cases "a = b"; cases "b < length h") (simp_all add: setValue_def list_update_beyond)

lemma valueStep_keeps:
  "p_value (h ! a) = data (p_key (h ! a)) \<Longrightarrow>
     p_value ((h[b := setValue data (h ! b)]) ! a) = data (p_key (h ! a))"
  by (cases "a = b"; cases "b < length h") (simp_all add: setValue_def list_update_beyond)

lemma valueStep_sets:
  "a < length h \<Longrightarrow> p_value ((h[a := setValue data (h ! a)]) ! a) = data (p_key (h ! a))"
  by (simp add: setValue_def)

lemma valueFill_fold:
  "length (heap (fold (\<lambda>b q. q\<lparr>heap := (heap q)[b := setValue data (heap q ! b)]\<rparr>) ps pr))
     = length (heap pr)
   \<and> p_key (heap (fold (\<lambda>b q. q\<lparr>heap := (heap q)[b := setValue data (heap q ! b)]\<rparr>) ps pr) ! a)
     = p_key (heap pr ! a)
   \<and> ((a \<in> set ps \<and> a < length (heap pr)) \<or> p_value (heap pr ! a) = data (p_key (heap pr ! a))
        \<longrightarrow> p_value (heap (fold (\<lambda>b q. q\<lparr>heap := (heap q)[b := setValue data (heap q ! b)]\<rparr>) ps pr) ! a)
              = data (p_key (heap pr ! a)))"
proof (induction ps arbitrary: pr)
  case Nil
  then show ?case by simp
next
  case (Cons b ps)
  let ?q = "pr\<lparr>heap := (heap pr)[b := setValue data (heap pr ! b)]\<rparr>"
  let ?f = "fold (\<lambda>b q. q\<lparr>heap := (heap q)[b := setValue data (heap q ! b)]\<rparr>) ps ?q"
  have k: "p_key (heap ?q ! a) = p_key (heap pr ! a)" by (simp add: valueStep_key)
  have l: "length (heap ?q) = length (heap pr)" by simp
  from Cons.IH [of ?q]
  have i1: "length (heap ?f) = length (heap ?q)"
    and i2: "p_key (heap ?f ! a) = p_key (heap ?q ! a)"
    and i3: "(a \<in> set ps \<and> a < length (heap ?q)) \<or> p_value (heap ?q ! a) = data (p_key (heap ?q ! a))
        \<Longrightarrow> p_value (heap ?f ! a) = data (p_key (heap ?q ! a))"
    by blast+
  have "p_value (heap ?f ! a) = data (p_key (heap pr ! a))"
    if h: "(a \<in> set (b # ps) \<and> a < length (heap pr)) \<or> p_value (heap pr ! a) = data (p_key (heap pr ! a))"
  proof -
    have "(a \<in> set ps \<and> a < length (heap ?q)) \<or> p_value (heap ?q ! a) = data (p_key (heap ?q ! a))"
    proof (cases "p_value (heap pr ! a) = data (p_key (heap pr ! a))")
      case True
      then show ?thesis by (simp add: valueStep_keeps valueStep_key)
    next
      case False
      with h have "a \<in> set (b # ps)" "a < length (heap pr)" by auto
      then show ?thesis by (cases "a = b") (auto simp: setValue_def)
    qed
    from i3 [OF this] k show ?thesis by simp
  qed
  with i1 i2 k l show ?case by simp
qed

lemma valueFill_value:
  "a \<in> set (parameters P) \<Longrightarrow> a < length (heap pr) \<Longrightarrow>
     p_value (heap (valueFill data (pr, P)) ! a) = data (p_key (heap pr ! a))"
  using valueFill_fold [of data "parameters P" pr a] by (simp add: valueFill_def)

lemma valueFill_length [simp]: "length (heap (valueFill data (pr, P))) = length (heap pr)"
  using valueFill_fold [of data "parameters P" pr] by (simp add: valueFill_def)

text \<open>The second loop: an entry with a default, whose parameter no other entry holds.\<close>

lemma defaultStep_other:
  "m_parameter (snd e) \<noteq> a \<Longrightarrow> heap (defaultStep e pr) ! a = heap pr ! a"
  by (cases e) (simp add: defaultStep_def Let_def)

lemma defaultStep_assigns:
  "m_parameter m < length (heap pr) \<Longrightarrow> p_value (heap pr ! m_parameter m) = None \<Longrightarrow>
     m_defaultValue m = Some v \<Longrightarrow>
     p_value (heap (defaultStep (n, m) pr) ! m_parameter m) = Some v"
  by (simp add: defaultStep_def Let_def)

lemma fold_defaultStep_assigns:
  assumes "distinct (map (\<lambda>e. m_parameter (snd e)) es)" and "(n, m) \<in> set es"
    and "m_parameter m < length (heap pr)" and "p_value (heap pr ! m_parameter m) = None"
    and "m_defaultValue m = Some v"
  shows "p_value (heap (fold defaultStep es pr) ! m_parameter m) = Some v"
  using assms
proof (induction es arbitrary: pr)
  case Nil
  then show ?case by simp
next
  case (Cons e es)
  show ?case
  proof (cases "e = (n, m)")
    case True
    from defaultStep_assigns [OF Cons.prems(3-5)]
    have v: "p_value (heap (defaultStep (n, m) pr) ! m_parameter m) = Some v" .
    then have "heap (fold defaultStep es (defaultStep (n, m) pr)) ! m_parameter m
                 = heap (defaultStep (n, m) pr) ! m_parameter m"
      by (intro fold_defaultStep_set_unchanged) simp
    with v True show ?thesis by simp
  next
    case False
    with Cons.prems(2) have mem: "(n, m) \<in> set es" by simp
    then have "m_parameter (snd (n, m)) \<in> (\<lambda>e. m_parameter (snd e)) ` set es"
      by (rule imageI)
    then have inl: "m_parameter m \<in> set (map (\<lambda>e. m_parameter (snd e)) es)" by simp
    from Cons.prems(1) have "m_parameter (snd e) \<notin> set (map (\<lambda>e. m_parameter (snd e)) es)"
      by simp
    with inl have ne: "m_parameter (snd e) \<noteq> m_parameter m" by metis
    from defaultStep_other [OF ne, of pr]
    have same: "heap (defaultStep e pr) ! m_parameter m = heap pr ! m_parameter m" .
    from Cons.prems(1) have d: "distinct (map (\<lambda>e. m_parameter (snd e)) es)" by simp
    from Cons.IH [OF d mem, of "defaultStep e pr"] Cons.prems(3-5) same show ?thesis by simp
  qed
qed

subsection \<open>A key that is taken\<close>


lemma argparseArgument_refusesTakenName: "refusesTakenName set argparseArgument"
  by (auto simp: refusesTakenName_def argparseArgument_def split: if_splits)

text \<open>
  The long name is among the names handed to the tokenizer, so a tokenizer that refuses the
  empty option string accepts no parameter whose long name is empty.
\<close>

lemma longName_in_names: "parameterLongName d \<in> set (names d)"
  by (simp add: names_def)














subsection \<open>Two declarations with one long name\<close>

text \<open>What \<^verbatim>\<open>_createParameter\<close> returns when the key is free and the tokenizer throws.\<close>

lemma createParameter_rejected:
  assumes "map_of (keys P) (fst (defaultKey ka pr)) = None"
    and "A (names d) (baseArgparseOptions d opts (fst (defaultKey ka pr))) (argumentParser P)
           = None"
  shows "createParameter A d opts ka (pr, P) =
           (Inl TokenizerError,
            (snd (defaultKey ka pr))
               \<lparr>heap := heap pr @ [\<lparr>p_key = fst (defaultKey ka pr), p_value = None\<rparr>]\<rparr>,
            P\<lparr>keys := Map_set (fst (defaultKey ka pr)) (parameterLongName d) (keys P),
              parameters := parameters P @ [length (heap pr)]\<rparr>)"
proof -
  obtain k pr1 where dk: "defaultKey ka pr = (k, pr1)" by (cases "defaultKey ka pr")
  have h1: "heap pr1 = heap pr" using heap_defaultKey [of ka pr] dk by simp
  from assms dk h1 show ?thesis
    by (simp add: createParameter_def getKey_def Let_def)
qed

text \<open>After \<^verbatim>\<open>set\<close>, a map has one entry for the key, the one that was set.\<close>

lemma only_entry:
  assumes "distinct (map fst md)"
  shows "(n, m) \<in> set (Map_set n v md) \<longleftrightarrow> m = v"
proof
  assume "(n, m) \<in> set (Map_set n v md)"
  moreover from assms have "distinct (map fst (Map_set n v md))" by (rule distinct_Map_set)
  ultimately have "map_of (Map_set n v md) n = Some m" by (simp add: map_of_is_SomeI)
  then show "m = v" by (simp add: map_of_Map_set)
next
  assume "m = v"
  moreover have "(n, v) \<in> set (Map_set n v md)"
    by (rule map_of_SomeD) (simp add: map_of_Map_set)
  ultimately show "(n, m) \<in> set (Map_set n v md)" by simp
qed

text \<open>
  Claim C9, as the code has it. A parameter is created, and then another with the same long
  name; their keys \<open>k1\<close> and \<open>k2\<close> (explicit or generated) are distinct and free in the
  registry. The provider does not compare long names: the second call raises neither
  \<open>InvalidDefinitionError\<close> nor \<open>DuplicateKeyError\<close>, and whether it raises at all is up to
  the tokenizer. Either way both parameters are in the parameters list afterwards, each
  with its key. If the tokenizer throws on the second switch, the call fails with the
  tokenizer's error and the metadata map has one entry for the long name, that of the first
  declaration. If the tokenizer accepts it, the call returns the second parameter and the
  metadata map has one entry for the long name, that of the second declaration: the map is
  what it would be had the first declaration never written to it, so nothing of the first
  declaration's required flag and default value is left for resolution to consult. A
  tokenizer that refuses an option string that is taken, as argparse does, throws.
\<close>

theorem same_long_name_left_to_tokenizer:
  assumes same: "parameterLongName d2 = parameterLongName d1"
    and k1: "k1 = fst (defaultKey ka1 pr)"
    and k2: "k2 = fst (defaultKey ka2 (snd (defaultKey ka1 pr)))"
    and free1: "map_of (keys P) k1 = None"
    and free2: "map_of (keys P) k2 = None"
    and diff: "k1 \<noteq> k2"
    and first: "A (names d1) (baseArgparseOptions d1 o1 k1) (argumentParser P) = Some t1"
    and jsmap: "distinct (map fst (parameterMetadata P))"
  shows "\<exists>pr1 P1 r2 pr2 P2.
      createParameter A d1 o1 ka1 (pr, P) = (Inr (length (heap pr)), pr1, P1)
    \<and> createParameter A d2 o2 ka2 (pr1, P1) = (r2, pr2, P2)
    \<and> \<not> isInvalidDefinitionError r2 \<and> \<not> isDuplicateKeyError r2
    \<and> p_key (heap pr2 ! length (heap pr)) = k1
    \<and> p_key (heap pr2 ! Suc (length (heap pr))) = k2
    \<and> parameters P2 = parameters P @ [length (heap pr), Suc (length (heap pr))]
    \<and> (case A (names d2) (baseArgparseOptions d2 o2 k2) t1 of
          None \<Rightarrow>
            r2 = Inl TokenizerError
            \<and> parameterMetadata P2
                = Map_set (parameterLongName d1)
                    \<lparr>m_parameter = length (heap pr), m_required = (required d1 = Some True),
                     m_defaultValue = defaultValue d1\<rparr> (parameterMetadata P)
            \<and> (\<forall>m. (parameterLongName d1, m) \<in> set (parameterMetadata P2) \<longleftrightarrow>
                   m = \<lparr>m_parameter = length (heap pr), m_required = (required d1 = Some True),
                        m_defaultValue = defaultValue d1\<rparr>)
        | Some t2 \<Rightarrow>
            r2 = Inr (Suc (length (heap pr)))
            \<and> parameterMetadata P2
                = Map_set (parameterLongName d1)
                    \<lparr>m_parameter = Suc (length (heap pr)),
                     m_required = (required d2 = Some True),
                     m_defaultValue = defaultValue d2\<rparr> (parameterMetadata P)
            \<and> (\<forall>m. (parameterLongName d1, m) \<in> set (parameterMetadata P2) \<longleftrightarrow>
                   m = \<lparr>m_parameter = Suc (length (heap pr)),
                        m_required = (required d2 = Some True),
                        m_defaultValue = defaultValue d2\<rparr>))
    \<and> (refusesTakenName taken A \<longrightarrow> r2 = Inl TokenizerError)"
proof -
  let ?l = "length (heap pr)"
  let ?n = "parameterLongName d1"
  let ?m1 = "\<lparr>m_parameter = ?l, m_required = (required d1 = Some True),
              m_defaultValue = defaultValue d1\<rparr>"
  let ?m2 = "\<lparr>m_parameter = Suc ?l, m_required = (required d2 = Some True),
              m_defaultValue = defaultValue d2\<rparr>"
  let ?pr1 = "(snd (defaultKey ka1 pr))\<lparr>heap := heap pr @ [\<lparr>p_key = k1, p_value = None\<rparr>]\<rparr>"
  let ?P1 = "P\<lparr>keys := Map_set k1 ?n (keys P),
              parameters := parameters P @ [?l],
              argumentParser := t1,
              parameterMetadata := Map_set ?n ?m1 (parameterMetadata P)\<rparr>"
  have c1: "createParameter A d1 o1 ka1 (pr, P) = (Inr ?l, ?pr1, ?P1)"
    using createParameter_created [of P ka1 pr A d1 o1 t1] free1 first k1 by simp
  have dk2: "fst (defaultKey ka2 ?pr1) = k2"
    by (simp add: defaultKey_heap_update k2)
  have free2': "map_of (keys ?P1) (fst (defaultKey ka2 ?pr1)) = None"
    using free2 diff by (simp add: dk2 map_of_Map_set)
  let ?pr2 = "(snd (defaultKey ka2 ?pr1))
                \<lparr>heap := heap ?pr1 @ [\<lparr>p_key = k2, p_value = None\<rparr>]\<rparr>"
  have heap2: "heap ?pr2 = heap pr @ [\<lparr>p_key = k1, p_value = None\<rparr>, \<lparr>p_key = k2, p_value = None\<rparr>]"
    by simp
  have keys12: "p_key (heap ?pr2 ! ?l) = k1" "p_key (heap ?pr2 ! Suc ?l) = k2"
    unfolding heap2 by (simp_all add: nth_append)
  show ?thesis
  proof (cases "A (names d2) (baseArgparseOptions d2 o2 k2) t1")
    case None
    let ?P2 = "?P1\<lparr>keys := Map_set k2 ?n (keys ?P1),
                  parameters := parameters ?P1 @ [length (heap ?pr1)]\<rparr>"
    have c2: "createParameter A d2 o2 ka2 (?pr1, ?P1) = (Inl TokenizerError, ?pr2, ?P2)"
      using createParameter_rejected [of ?P1 ka2 ?pr1 A d2 o2] free2' None dk2 same by simp
    have md: "parameterMetadata ?P2 = Map_set ?n ?m1 (parameterMetadata P)" by simp
    have only: "\<forall>m. (?n, m) \<in> set (parameterMetadata ?P2) \<longleftrightarrow> m = ?m1"
      unfolding md using only_entry [OF jsmap] by blast
    have params: "parameters ?P2 = parameters P @ [?l, Suc ?l]" by simp
    from c1 c2 keys12 params md only None show ?thesis
      by (intro exI [of _ ?pr1] exI [of _ ?P1] exI [of _ "Inl TokenizerError"]
            exI [of _ ?pr2] exI [of _ ?P2]) simp
  next
    case (Some t2)
    let ?P2 = "?P1\<lparr>keys := Map_set k2 ?n (keys ?P1),
                  parameters := parameters ?P1 @ [length (heap ?pr1)],
                  argumentParser := t2,
                  parameterMetadata := Map_set ?n ?m2 (parameterMetadata ?P1)\<rparr>"
    have c2: "createParameter A d2 o2 ka2 (?pr1, ?P1) = (Inr (Suc ?l), ?pr2, ?P2)"
      using createParameter_created [of ?P1 ka2 ?pr1 A d2 o2 t2] free2' Some dk2 same by simp
    have md: "parameterMetadata ?P2 = Map_set ?n ?m2 (parameterMetadata P)"
      by (simp add: Map_set_twice)
    have only: "\<forall>m. (?n, m) \<in> set (parameterMetadata ?P2) \<longleftrightarrow> m = ?m2"
      unfolding md using only_entry [OF jsmap] by blast
    have params: "parameters ?P2 = parameters P @ [?l, Suc ?l]" by simp
    have notTaken: "\<not> refusesTakenName taken A"
    proof
      assume r: "refusesTakenName taken A"
      from r first have "set (names d1) \<subseteq> taken t1" by (auto simp: refusesTakenName_def)
      with longName_in_names [of d1] have "?n \<in> taken t1" by auto
      moreover from r Some have "set (names d2) \<inter> taken t1 = {}"
        by (auto simp: refusesTakenName_def)
      moreover from longName_in_names [of d2] same have "?n \<in> set (names d2)" by simp
      ultimately show False by auto
    qed
    from c1 c2 keys12 params md only Some notTaken show ?thesis
      by (intro exI [of _ ?pr1] exI [of _ ?P1] exI [of _ "Inr (Suc ?l)"]
            exI [of _ ?pr2] exI [of _ ?P2]) simp
  qed
qed

text \<open>
  The theorem over the example tokenizer: \<open>--name\<close>, required and with a default, under the
  key \<open>a\<close>, and then \<open>--name\<close> again under a generated key. The second call fails in the
  tokenizer, both parameters are in the list, and the metadata is the first declaration's.
\<close>

theorem same_long_name_left_to_tokenizer_witness:
  "fst (createParameter argparseArgument (requiredName None) None (Some ''a'')
          (newProcess, newProvider [])) = Inr 0
   \<and> fst (createParameter argparseArgument (plainDefinition ''--name'' None) None None
          (snd (createParameter argparseArgument (requiredName None) None (Some ''a'')
             (newProcess, newProvider [])))) = Inl TokenizerError
   \<and> parameters (snd (snd (createParameter argparseArgument (plainDefinition ''--name'' None)
          None None
          (snd (createParameter argparseArgument (requiredName None) None (Some ''a'')
             (newProcess, newProvider [])))))) = [0, 1]
   \<and> parameterMetadata (snd (snd (createParameter argparseArgument
          (plainDefinition ''--name'' None) None None
          (snd (createParameter argparseArgument (requiredName None) None (Some ''a'')
             (newProcess, newProvider []))))))
       = [(''--name'',
           \<lparr>m_parameter = 0, m_required = True, m_defaultValue = Some (JStr ''anon'')\<rparr>)]"
proof -
  let ?A = "argparseArgument"
  let ?d1 = "requiredName None"
  let ?d2 = "plainDefinition ''--name'' None"
  let ?P = "newProvider [] :: string list provider"
  let ?x1 = "createParameter ?A ?d1 None (Some ''a'') (newProcess, ?P)"
  let ?x2 = "createParameter ?A ?d2 None None (snd ?x1)"
  have same: "parameterLongName ?d2 = parameterLongName ?d1"
    by (simp add: requiredName_def plainDefinition_def)
  have k1: "''a'' = fst (defaultKey (Some ''a'') newProcess)" by (simp add: defaultKey_def)
  have k2: "''key_0'' = fst (defaultKey None (snd (defaultKey (Some ''a'') newProcess)))"
    by (simp add: defaultKey_def newProcess_def toString.simps digit_def)
  have free1: "map_of (keys ?P) ''a'' = None" and free2: "map_of (keys ?P) ''key_0'' = None"
    by (simp_all add: newProvider_def)
  have diff: "''a'' \<noteq> ''key_0''" by simp
  have first: "?A (names ?d1) (baseArgparseOptions ?d1 None ''a'') (argumentParser ?P)
                 = Some [''--name'']"
    by (simp add: argparseArgument_def names_def requiredName_def plainDefinition_def
        newProvider_def)
  have jsmap: "distinct (map fst (parameterMetadata ?P))" by (simp add: newProvider_def)
  from same_long_name_left_to_tokenizer
         [where A = ?A and ?d1.0 = ?d1 and ?d2.0 = ?d2 and ?ka1.0 = "Some ''a''"
            and ?ka2.0 = None and pr = newProcess and P = ?P and ?o1.0 = None
            and ?o2.0 = None and taken = set, OF same k1 k2 free1 free2 diff first jsmap]
  obtain pr1 P1 r2 pr2 P2 where
    a: "?x1 = (Inr (length (heap newProcess)), pr1, P1)"
    and b: "createParameter ?A ?d2 None None (pr1, P1) = (r2, pr2, P2)"
    and ps: "parameters P2 = parameters ?P @ [length (heap newProcess), Suc (length (heap newProcess))]"
    and t: "refusesTakenName set ?A \<longrightarrow> r2 = Inl TokenizerError"
    by blast
  from t argparseArgument_refusesTakenName have r2: "r2 = Inl TokenizerError" by simp
  have md: "parameterMetadata (snd (snd ?x2))
       = [(''--name'',
           \<lparr>m_parameter = 0, m_required = True, m_defaultValue = Some (JStr ''anon'')\<rparr>)]"
    by (simp add: eval_defs requiredName_def)
  from a b ps r2 md show ?thesis by (simp add: newProcess_def newProvider_def)
qed

text \<open>
  Claim C9 as stated fails where the tokenizer refuses an option string that is taken:
  \<open>--name\<close> is declared under the key \<open>a\<close> and again under the key \<open>b\<close>; the second
  declaration raises an error, and the metadata map holds the first declaration's required
  flag and default value, not the second's.
\<close>

theorem same_long_name_refused_counterexample:
  "fst (declareAll argparseArgument
          [DefineString (requiredName (Some ''a'')),
           DefineString (plainDefinition ''--name'' (Some ''b''))]
          (newProcess, newProvider [])) = [Inr 0, Inl TokenizerError]
   \<and> parameterMetadata (snd (snd (declareAll argparseArgument
          [DefineString (requiredName (Some ''a'')),
           DefineString (plainDefinition ''--name'' (Some ''b''))]
          (newProcess, newProvider []))))
       = [(''--name'',
           \<lparr>m_parameter = 0, m_required = True, m_defaultValue = Some (JStr ''anon'')\<rparr>)]"
  by (simp add: eval_defs requiredName_def)

subsection \<open>A required parameter with a default\<close>

text \<open>
  Over a tokenizer that refuses an option string that is taken, every long name in the
  metadata map is taken, and its entry is never replaced.
\<close>

lemma defineParameter_taken:
  assumes step: "defineParameter A c (pr, P) = (r, pr', P')"
    and tok: "refusesTakenName taken A"
    and inv: "\<forall>n. map_of (parameterMetadata P) n \<noteq> None \<longrightarrow> n \<in> taken (argumentParser P)"
  shows "(\<forall>n. map_of (parameterMetadata P') n \<noteq> None \<longrightarrow> n \<in> taken (argumentParser P'))
       \<and> (\<forall>n. map_of (parameterMetadata P) n \<noteq> None \<longrightarrow>
             map_of (parameterMetadata P') n = map_of (parameterMetadata P) n)"
proof -
  from defineParameter_cases [of A c "(pr, P)"] show ?thesis
  proof
    assume "\<exists>x. defineParameter A c (pr, P) = (Inl (InvalidDefinitionError x), pr, P)"
    with step inv show ?thesis by auto
  next
    assume "\<exists>opts. defineParameter A c (pr, P)
              = createParameter A (definitionOf c) opts (explicitKey c) (pr, P)"
    then obtain opts where
      cp: "createParameter A (definitionOf c) opts (explicitKey c) (pr, P) = (r, pr', P')"
      using step by auto
    from cp show ?thesis
    proof (cases rule: createParameter_cases)
      case (duplicate owner)
      with inv show ?thesis by simp
    next
      case rejected
      with inv show ?thesis by simp
    next
      case (created tok')
      let ?n = "parameterLongName (definitionOf c)"
      from tok created(3)
      have free: "set (names (definitionOf c)) \<inter> taken (argumentParser P) = {}"
        and grow: "taken (argumentParser P) \<union> set (names (definitionOf c)) \<subseteq> taken tok'"
        by (auto simp: refusesTakenName_def)
      from free longName_in_names [of "definitionOf c"]
      have new: "?n \<notin> taken (argumentParser P)" by auto
      with inv have notin: "map_of (parameterMetadata P) ?n = None" by auto
      from grow longName_in_names [of "definitionOf c"]
      have in': "?n \<in> taken tok'" and mono: "taken (argumentParser P) \<subseteq> taken tok'" by auto
      have md: "map_of (parameterMetadata P')
                  = (map_of (parameterMetadata P))
                      (?n \<mapsto> \<lparr>m_parameter = length (heap pr),
                              m_required = (required (definitionOf c) = Some True),
                              m_defaultValue = defaultValue (definitionOf c)\<rparr>)"
        using created(5) by (simp add: map_of_Map_set)
      have ap: "argumentParser P' = tok'" using created(5) by simp
      have A1: "\<forall>n. map_of (parameterMetadata P') n \<noteq> None \<longrightarrow> n \<in> taken (argumentParser P')"
        unfolding md ap using in' mono inv by auto
      have A2: "\<forall>n. map_of (parameterMetadata P) n \<noteq> None \<longrightarrow>
             map_of (parameterMetadata P') n = map_of (parameterMetadata P) n"
        unfolding md using notin by auto
      from A1 A2 show ?thesis by simp
    qed
  qed
qed

lemma declareAll_taken:
  assumes "declareAll A ds (pr, P) = (rs, pr', P')"
    and "refusesTakenName taken A"
    and "\<forall>n. map_of (parameterMetadata P) n \<noteq> None \<longrightarrow> n \<in> taken (argumentParser P)"
  shows "(\<forall>n. map_of (parameterMetadata P') n \<noteq> None \<longrightarrow> n \<in> taken (argumentParser P'))
       \<and> (\<forall>n. map_of (parameterMetadata P) n \<noteq> None \<longrightarrow>
             map_of (parameterMetadata P') n = map_of (parameterMetadata P) n)"
  using assms
proof (induction ds arbitrary: pr P rs)
  case Nil
  then show ?case by simp
next
  case (Cons c ds)
  obtain r pr1 P1 where step: "defineParameter A c (pr, P) = (r, pr1, P1)"
    by (cases "defineParameter A c (pr, P)")
  obtain rs1 where rest: "declareAll A ds (pr1, P1) = (rs1, pr', P')"
    using Cons.prems(1) step by (auto split: prod.splits)
  from defineParameter_taken [OF step Cons.prems(2,3)]
  have inv1: "\<forall>n. map_of (parameterMetadata P1) n \<noteq> None \<longrightarrow> n \<in> taken (argumentParser P1)"
    and keep1: "\<forall>n. map_of (parameterMetadata P) n \<noteq> None \<longrightarrow>
             map_of (parameterMetadata P1) n = map_of (parameterMetadata P) n"
    by simp_all
  from Cons.IH [OF rest Cons.prems(2) inv1]
  have inv2: "\<forall>n. map_of (parameterMetadata P') n \<noteq> None \<longrightarrow> n \<in> taken (argumentParser P')"
    and keep2: "\<forall>n. map_of (parameterMetadata P1) n \<noteq> None \<longrightarrow>
             map_of (parameterMetadata P') n = map_of (parameterMetadata P1) n"
    by simp_all
  from keep1 keep2
  have "\<forall>n. map_of (parameterMetadata P) n \<noteq> None \<longrightarrow>
             map_of (parameterMetadata P') n = map_of (parameterMetadata P) n"
    by metis
  with inv2 show ?case by simp
qed

text \<open>
  Claim C5. The tokenizer refuses an option string that is taken, as argparse does. A new
  provider receives declarations; one of them succeeds for a definition that is required
  and has a default value; more declarations follow, whatever they are. If the parsed data
  has no value for the parameter's key, then after \<open>processParsedData\<close> the parameter's
  value is the default value, and the parameter never fails the validation of the required
  parameters: \<open>validateParameters\<close> does not report it, and returns without error unless
  other required parameters are unset.
\<close>

theorem required_with_default_resolves:
  assumes tokenizer: "refusesTakenName taken A"
    and before: "declareAll A ds0 (pr0, newProvider tok) = (rs0, s)"
    and declared: "defineParameter A c s = (Inr a, s1)"
    and after: "declareAll A ds1 s1 = (rs1, pr2, P2)"
    and req: "required (definitionOf c) = Some True"
    and dflt: "defaultValue (definitionOf c) = Some v"
    and noValue: "data (p_key (heap pr2 ! a)) = None"
  shows "p_value (heap (processParsedData data (pr2, P2)) ! a) = Some v
       \<and> parameterLongName (definitionOf c)
           \<notin> set (missingRequired (processParsedData data (pr2, P2), P2))
       \<and> validateParameters (processParsedData data (pr2, P2), P2)
           = (if missingRequired (processParsedData data (pr2, P2), P2) = [] then Inr ()
              else Inl (MissingRequiredParametersError
                          (missingRequired (processParsedData data (pr2, P2), P2))))"
proof -
  let ?n = "parameterLongName (definitionOf c)"
  let ?m = "\<lparr>m_parameter = a, m_required = (required (definitionOf c) = Some True),
              m_defaultValue = defaultValue (definitionOf c)\<rparr>"
  obtain pr P where s: "s = (pr, P)" by (cases s)
  obtain pr1 P1 where s1: "s1 = (pr1, P1)" by (cases s1)
  have shape: "\<forall>a \<in> set (parameters P). a < length (heap pr)"
      "(\<lambda>e. m_parameter (snd e)) ` set (parameterMetadata P) \<subseteq> set (parameters P)"
      "distinct (map (\<lambda>e. m_parameter (snd e)) (parameterMetadata P))"
      "distinct (map fst (parameterMetadata P))"
    using declareAll_shape [OF before [unfolded s]] by (simp_all add: newProvider_def)
  have tk: "\<forall>n. map_of (parameterMetadata P) n \<noteq> None \<longrightarrow> n \<in> taken (argumentParser P)"
    using declareAll_taken [OF before [unfolded s] tokenizer] by (simp add: newProvider_def)
  from defineParameter_shape [OF declared [unfolded s s1] shape]
  have shape1: "\<forall>a \<in> set (parameters P1). a < length (heap pr1)"
      "(\<lambda>e. m_parameter (snd e)) ` set (parameterMetadata P1) \<subseteq> set (parameters P1)"
      "distinct (map (\<lambda>e. m_parameter (snd e)) (parameterMetadata P1))"
      "distinct (map fst (parameterMetadata P1))"
    and a1: "a < length (heap pr1)" "a \<in> set (parameters P1)"
      "map_of (parameterMetadata P1) ?n = Some ?m"
    by simp_all
  from defineParameter_taken [OF declared [unfolded s s1] tokenizer tk]
  have tk1: "\<forall>n. map_of (parameterMetadata P1) n \<noteq> None \<longrightarrow> n \<in> taken (argumentParser P1)"
    by simp
  from declareAll_taken [OF after [unfolded s1] tokenizer tk1] a1(3)
  have m2: "map_of (parameterMetadata P2) ?n = map_of (parameterMetadata P1) ?n" by simp
  from declareAll_shape [OF after [unfolded s1] shape1]
  have shape2: "distinct (map (\<lambda>e. m_parameter (snd e)) (parameterMetadata P2))"
      "distinct (map fst (parameterMetadata P2))"
    and h2: "\<exists>ext. heap pr2 = heap pr1 @ ext"
    and p2: "set (parameters P1) \<subseteq> set (parameters P2)"
    by simp_all
  from a1 h2 p2 have a2: "a < length (heap pr2)" "a \<in> set (parameters P2)" by auto
  from a1(3) m2 have entry: "(?n, ?m) \<in> set (parameterMetadata P2)"
    by (auto dest: map_of_SomeD)
  let ?pr3 = "valueFill data (pr2, P2)"
  let ?pr4 = "processParsedData data (pr2, P2)"
  have pr4: "?pr4 = fold defaultStep (parameterMetadata P2) ?pr3"
    by (simp add: processParsedData_def defaultFill_def)
  from valueFill_value [OF a2(2) a2(1), of data] noValue
  have unset: "p_value (heap ?pr3 ! a) = None" by simp
  have "p_value (heap (fold defaultStep (parameterMetadata P2) ?pr3) ! m_parameter ?m) = Some v"
    using shape2(1) entry
  proof (rule fold_defaultStep_assigns)
    show "m_parameter ?m < length (heap ?pr3)" using a2(1) by simp
    show "p_value (heap ?pr3 ! m_parameter ?m) = None" using unset by simp
    show "m_defaultValue ?m = Some v" using dflt by simp
  qed
  then have final: "p_value (heap ?pr4 ! a) = Some v" unfolding pr4 by simp
  have notMissing: "?n \<notin> set (missingRequired (?pr4, P2))"
  proof
    assume "?n \<in> set (missingRequired (?pr4, P2))"
    then obtain m' where m': "(?n, m') \<in> set (parameterMetadata P2)"
      "p_value (heap ?pr4 ! m_parameter m') = None"
      by (auto simp: missingRequired_def)
    from shape2(2) m'(1) have "map_of (parameterMetadata P2) ?n = Some m'"
      by (rule map_of_is_SomeI)
    with m2 a1(3) have "m' = ?m" by simp
    with m'(2) final show False by simp
  qed
  from final notMissing validateParameters_eq [of "(?pr4, P2)"] show ?thesis by simp
qed

text \<open>
  A flag, the required \<open>--name\<close> with the default \<open>anon\<close>, the option of scenario C, and a
  second \<open>--name\<close>, which the tokenizer refuses; the data is empty. The name resolves to
  \<open>anon\<close> and validation passes.
\<close>

theorem required_with_default_resolves_witness:
  "fst (declareAll argparseArgument
          [DefineFlag (plainDefinition ''--verbose'' None), DefineString (requiredName None),
           DefineOption levelOption, DefineString (plainDefinition ''--name'' (Some ''b''))]
          (newProcess, newProvider [])) = [Inr 0, Inr 1, Inr 2, Inl TokenizerError]
   \<and> p_value (heap (processParsedData (\<lambda>k. None)
         (snd (declareAll argparseArgument
            [DefineFlag (plainDefinition ''--verbose'' None), DefineString (requiredName None),
             DefineOption levelOption, DefineString (plainDefinition ''--name'' (Some ''b''))]
            (newProcess, newProvider [])))) ! 1) = Some (JStr ''anon'')
   \<and> validateParameters
         (resolved (\<lambda>k. None)
            (snd (declareAll argparseArgument
               [DefineFlag (plainDefinition ''--verbose'' None), DefineString (requiredName None),
                DefineOption levelOption, DefineString (plainDefinition ''--name'' (Some ''b''))]
               (newProcess, newProvider [])))) = Inr ()"
proof -
  let ?A = "argparseArgument"
  let ?ds0 = "[DefineFlag (plainDefinition ''--verbose'' None)]"
  let ?c = "DefineString (requiredName None)"
  let ?ds1 = "[DefineOption levelOption, DefineString (plainDefinition ''--name'' (Some ''b''))]"
  let ?s0 = "(newProcess, newProvider []) :: string list state"
  let ?x0 = "declareAll ?A ?ds0 ?s0"
  let ?x1 = "defineParameter ?A ?c (snd ?x0)"
  let ?x2 = "declareAll ?A ?ds1 (snd ?x1)"
  let ?all = "[DefineFlag (plainDefinition ''--verbose'' None), DefineString (requiredName None),
           DefineOption levelOption, DefineString (plainDefinition ''--name'' (Some ''b''))]"
  have before: "declareAll ?A ?ds0 (newProcess, newProvider []) = (fst ?x0, snd ?x0)" by simp
  have "fst ?x1 = Inr 1" by (simp add: eval_defs requiredName_def)
  then have declared: "defineParameter ?A ?c (snd ?x0) = (Inr 1, snd ?x1)"
    by (metis prod.collapse)
  have after: "declareAll ?A ?ds1 (snd ?x1) = (fst ?x2, fst (snd ?x2), snd (snd ?x2))" by simp
  have req: "required (definitionOf ?c) = Some True" by (simp add: requiredName_def)
  have dflt: "defaultValue (definitionOf ?c) = Some (JStr ''anon'')" by (simp add: requiredName_def)
  have noValue: "(\<lambda>k. None) (p_key (heap (fst (snd ?x2)) ! 1)) = None" by simp
  have st: "snd (declareAll ?A ?all ?s0) = snd ?x2" by (simp split: prod.splits)
  have rs: "fst (declareAll ?A ?all ?s0) = [Inr 0, Inr 1, Inr 2, Inl TokenizerError]"
    by (simp add: eval_defs requiredName_def levelOption_def)
  have none: "missingRequired (resolved (\<lambda>k. None) (snd (declareAll ?A ?all ?s0))) = []"
    by (simp add: missingRequired_def eval_defs requiredName_def levelOption_def)
  from required_with_default_resolves
         [OF argparseArgument_refusesTakenName before declared after req dflt noValue]
    st rs none
  show ?thesis by (simp add: resolved_def)
qed

end
